theory Spec2Isabelle
  imports Main "HOL-Library.Sublist" "HOL-Library.AList"
begin

section \<open>Python strings\<close>

text \<open>
  A Python \<open>str\<close> is modelled as a \<^typ>\<open>string\<close> whose characters are the code
  points 0 to 255. The character classes below are \<open>str.isspace\<close>, \<open>str.lower\<close>, the
  regular-expression classes \<open>[a-z0-9]\<close> and \<open>[0-9]\<close>, and the word characters of
  \<open>\b\<close> (letters, digits and the underscore) on these code points.
\<close>

definition is_space :: "char \<Rightarrow> bool" where
  "is_space c = (c \<in> set [CHR 0x09, CHR 0x0A, CHR 0x0B, CHR 0x0C, CHR 0x0D,
                            CHR 0x1C, CHR 0x1D, CHR 0x1E, CHR 0x1F, CHR 0x20,
                            CHR 0x85, CHR 0xA0])"

definition is_slug_char :: "char \<Rightarrow> bool" where
  "is_slug_char c = (c \<in> set ''abcdefghijklmnopqrstuvwxyz0123456789'')"

definition is_digit :: "char \<Rightarrow> bool" where
  "is_digit c = (c \<in> set ''0123456789'')"

definition is_word_char :: "char \<Rightarrow> bool" where
  "is_word_char c =
     (c \<in> set (''abcdefghijklmnopqrstuvwxyzABCDEFGHIJKLMNOPQRSTUVWXYZ0123456789_'' @
      [CHR 0xAA, CHR 0xB2, CHR 0xB3, CHR 0xB5, CHR 0xB9, CHR 0xBA,
       CHR 0xBC, CHR 0xBD, CHR 0xBE, CHR 0xC0, CHR 0xC1, CHR 0xC2,
       CHR 0xC3, CHR 0xC4, CHR 0xC5, CHR 0xC6, CHR 0xC7, CHR 0xC8,
       CHR 0xC9, CHR 0xCA, CHR 0xCB, CHR 0xCC, CHR 0xCD, CHR 0xCE,
       CHR 0xCF, CHR 0xD0, CHR 0xD1, CHR 0xD2, CHR 0xD3, CHR 0xD4,
       CHR 0xD5, CHR 0xD6, CHR 0xD8, CHR 0xD9, CHR 0xDA, CHR 0xDB,
       CHR 0xDC, CHR 0xDD, CHR 0xDE, CHR 0xDF, CHR 0xE0, CHR 0xE1,
       CHR 0xE2, CHR 0xE3, CHR 0xE4, CHR 0xE5, CHR 0xE6, CHR 0xE7,
       CHR 0xE8, CHR 0xE9, CHR 0xEA, CHR 0xEB, CHR 0xEC, CHR 0xED,
       CHR 0xEE, CHR 0xEF, CHR 0xF0, CHR 0xF1, CHR 0xF2, CHR 0xF3,
       CHR 0xF4, CHR 0xF5, CHR 0xF6, CHR 0xF8, CHR 0xF9, CHR 0xFA,
       CHR 0xFB, CHR 0xFC, CHR 0xFD, CHR 0xFE, CHR 0xFF]))"

definition upper_chars :: string where
  "upper_chars =
     ''ABCDEFGHIJKLMNOPQRSTUVWXYZ'' @
      [CHR 0xC0, CHR 0xC1, CHR 0xC2, CHR 0xC3, CHR 0xC4, CHR 0xC5,
       CHR 0xC6, CHR 0xC7, CHR 0xC8, CHR 0xC9, CHR 0xCA, CHR 0xCB,
       CHR 0xCC, CHR 0xCD, CHR 0xCE, CHR 0xCF, CHR 0xD0, CHR 0xD1,
       CHR 0xD2, CHR 0xD3, CHR 0xD4, CHR 0xD5, CHR 0xD6, CHR 0xD8,
       CHR 0xD9, CHR 0xDA, CHR 0xDB, CHR 0xDC, CHR 0xDD, CHR 0xDE]"

definition lower_chars :: string where
  "lower_chars =
     ''abcdefghijklmnopqrstuvwxyz'' @
      [CHR 0xE0, CHR 0xE1, CHR 0xE2, CHR 0xE3, CHR 0xE4, CHR 0xE5,
       CHR 0xE6, CHR 0xE7, CHR 0xE8, CHR 0xE9, CHR 0xEA, CHR 0xEB,
       CHR 0xEC, CHR 0xED, CHR 0xEE, CHR 0xEF, CHR 0xF0, CHR 0xF1,
       CHR 0xF2, CHR 0xF3, CHR 0xF4, CHR 0xF5, CHR 0xF6, CHR 0xF8,
       CHR 0xF9, CHR 0xFA, CHR 0xFB, CHR 0xFC, CHR 0xFD, CHR 0xFE]"

definition lower_char :: "char \<Rightarrow> char" where
  "lower_char c = (case map_of (zip upper_chars lower_chars) c of Some d \<Rightarrow> d | None \<Rightarrow> c)"

definition py_lower :: "string \<Rightarrow> string" where
  "py_lower s = map lower_char s"

text \<open>\<open>s.strip()\<close>, \<open>s.strip(chars)\<close> and \<open>s.lstrip(chars)\<close>.\<close>

definition strip_where :: "(char \<Rightarrow> bool) \<Rightarrow> string \<Rightarrow> string" where
  "strip_where P s = rev (dropWhile P (rev (dropWhile P s)))"

definition py_strip :: "string \<Rightarrow> string" where
  "py_strip s = strip_where is_space s"

definition strip_chars :: "string \<Rightarrow> string \<Rightarrow> string" where
  "strip_chars cs s = strip_where (\<lambda>c. c \<in> set cs) s"

definition lstrip_chars :: "string \<Rightarrow> string \<Rightarrow> string" where
  "lstrip_chars cs s = dropWhile (\<lambda>c. c \<in> set cs) s"

text \<open>\<open>sep.join(xs)\<close>.\<close>

fun py_join :: "string \<Rightarrow> string list \<Rightarrow> string" where
  "py_join sep [] = []"
| "py_join sep [x] = x"
| "py_join sep (x # y # ys) = x @ sep @ py_join sep (y # ys)"

text \<open>
  \<open>re.sub(r"[C]+", rep, s)\<close> for a character class \<open>C\<close>: every maximal run of
  characters of the class is replaced by \<open>rep\<close>.
\<close>

function sub_runs :: "(char \<Rightarrow> bool) \<Rightarrow> string \<Rightarrow> string \<Rightarrow> string" where
  "sub_runs P rep [] = []"
| "sub_runs P rep (c # cs) =
     (if P c then rep @ sub_runs P rep (dropWhile P cs) else c # sub_runs P rep cs)"
  by pat_completeness auto
termination
  by (relation "measure (\<lambda>(P, rep, s). length s)")
     (auto simp: length_dropWhile_le le_imp_less_Suc)

text \<open>
  \<open>s.replace(old, new)\<close>: the occurrences of \<open>old\<close> are found from left to right
  without overlap; an empty \<open>old\<close> matches before every character and at the end.
\<close>

function replace_from :: "string \<Rightarrow> string \<Rightarrow> string \<Rightarrow> string" where
  "replace_from old new [] = []"
| "replace_from old new (c # cs) =
     (if prefix old (c # cs) then new @ replace_from old new (drop (length old - 1) cs)
      else c # replace_from old new cs)"
  by pat_completeness auto
termination
  by (relation "measure (\<lambda>(old, new, s). length s)") auto

definition py_replace :: "string \<Rightarrow> string \<Rightarrow> string \<Rightarrow> string" where
  "py_replace old new s =
     (if old = [] then new @ concat (map (\<lambda>c. c # new) s) else replace_from old new s)"

text \<open>
  Deleting a non-empty \<open>old\<close> in one pass from left to right, in words: a text without
  an occurrence stays as it is; otherwise the text up to the first occurrence is kept,
  the occurrence is dropped and the deletion goes on in the text after it.
\<close>

inductive deletes :: "string \<Rightarrow> string \<Rightarrow> string \<Rightarrow> bool" for old :: string where
  no_occurrence: "\<not> sublist old s \<Longrightarrow> deletes old s s"
| first_occurrence:
    "\<not> sublist old (butlast (pre @ old)) \<Longrightarrow> deletes old rest res
      \<Longrightarrow> deletes old (pre @ old @ rest) (pre @ res)"

text \<open>
  \<open>s.split(sep, 1)\<close> for a non-empty separator: the text before and after the first
  occurrence of \<open>sep\<close>, or \<open>s\<close> alone when there is none.
\<close>

fun split_first :: "string \<Rightarrow> string \<Rightarrow> string \<Rightarrow> string list" where
  "split_first sep acc [] = [rev acc]"
| "split_first sep acc (c # cs) =
     (if prefix sep (c # cs) then [rev acc, drop (length sep) (c # cs)]
      else split_first sep (c # acc) cs)"

definition py_split1 :: "string \<Rightarrow> string \<Rightarrow> string list" where
  "py_split1 sep s = split_first sep [] s"

text \<open>\<open>str(n)\<close> of a natural number, as an f-string renders it.\<close>

definition digit_char :: "nat \<Rightarrow> char" where
  "digit_char d = ''0123456789'' ! d"

fun digits_of :: "nat \<Rightarrow> string" where
  "digits_of n = (if n < 10 then [digit_char n] else digits_of (n div 10) @ [digit_char (n mod 10)])"

declare digits_of.simps [simp del]

subsection \<open>The two regular expressions of the scraper\<close>

text \<open>
  \<open>re.search(r"(?:cricflag|flags)/([0-9]+)\.(?:png|gif)", src)\<close>: the leftmost match;
  the result is group 1, the digits. The digits are matched greedily and are followed
  by a dot, so only the maximal run of digits can match.
\<close>

definition flag_match_here :: "string \<Rightarrow> string option" where
  "flag_match_here s =
     (let rest = (if prefix ''cricflag/'' s then Some (drop 9 s)
                  else if prefix ''flags/'' s then Some (drop 6 s) else None)
      in case rest of
           None \<Rightarrow> None
         | Some r \<Rightarrow>
             (let ds = takeWhile is_digit r; after = dropWhile is_digit r
              in if ds \<noteq> [] \<and> (prefix ''.png'' after \<or> prefix ''.gif'' after)
                 then Some ds else None))"

fun flag_search :: "string \<Rightarrow> string option" where
  "flag_search [] = None"
| "flag_search (c # cs) =
     (case flag_match_here (c # cs) of Some d \<Rightarrow> Some d | None \<Rightarrow> flag_search cs)"

text \<open>
  \<open>re.search(r"\bPST\b|AM|PM", s, re.I)\<close>: a match at some position. \<open>prev\<close> is the
  character before the position, for the word boundary \<open>\b\<close>.
\<close>

definition ci_prefix :: "string \<Rightarrow> string \<Rightarrow> bool" where
  "ci_prefix p s = prefix p (py_lower (take (length p) s))"

definition word_boundary_before :: "char option \<Rightarrow> bool" where
  "word_boundary_before prev = (case prev of None \<Rightarrow> True | Some p \<Rightarrow> \<not> is_word_char p)"

definition word_boundary_after :: "string \<Rightarrow> bool" where
  "word_boundary_after rest = (case rest of [] \<Rightarrow> True | d # _ \<Rightarrow> \<not> is_word_char d)"

definition time_marker_here :: "char option \<Rightarrow> string \<Rightarrow> bool" where
  "time_marker_here prev s =
     ((ci_prefix ''pst'' s \<and> word_boundary_before prev \<and> word_boundary_after (drop 3 s))
      \<or> ci_prefix ''am'' s \<or> ci_prefix ''pm'' s)"

fun time_marker_from :: "char option \<Rightarrow> string \<Rightarrow> bool" where
  "time_marker_from prev [] = False"
| "time_marker_from prev (c # cs) =
     (time_marker_here prev (c # cs) \<or> time_marker_from (Some c) cs)"

definition time_marker :: "string \<Rightarrow> bool" where
  "time_marker s = time_marker_from None s"

text \<open>
  The time marker in words: the text holds \<open>am\<close> or \<open>pm\<close> in any case, or \<open>pst\<close> in
  any case with no letter, digit or underscore next to it on either side.
\<close>

definition has_time_marker :: "string \<Rightarrow> bool" where
  "has_time_marker d \<longleftrightarrow>
     (\<exists>pre m post. d = pre @ m @ post \<and>
        (py_lower m = ''am'' \<or> py_lower m = ''pm'' \<or>
         (py_lower m = ''pst'' \<and> (pre = [] \<or> \<not> is_word_char (last pre)) \<and>
          (post = [] \<or> \<not> is_word_char (hd post)))))"

subsection \<open>Slugify\<close>

text \<open>\<open>_slugify\<close> of \<open>scraper.py\<close> and \<open>slugify\<close> of \<open>download_flags.py\<close>.\<close>

definition slugify :: "string \<Rightarrow> string" where
  "slugify name =
     (let s = py_lower (py_strip name);
          s = sub_runs (\<lambda>c. \<not> is_slug_char c) ''-'' s;
          s = strip_chars ''-'' (sub_runs (\<lambda>c. c = CHR ''-'') ''-'' s)
      in if s = [] then ''unknown'' else s)"

definition df_slugify :: "string \<Rightarrow> string" where
  "df_slugify name =
     (let s = py_lower (py_strip name);
          s = sub_runs (\<lambda>c. \<not> is_slug_char c) ''-'' s;
          s = strip_chars ''-'' (sub_runs (\<lambda>c. c = CHR ''-'') ''-'' s)
      in if s = [] then ''unknown'' else s)"

text \<open>
  The shape of a slug: non-empty, lower-case letters, digits and hyphens only, no hyphen
  at either end and no two hyphens in a row, that is, runs of letters and digits
  separated by single hyphens.
\<close>

definition slug_token :: "string \<Rightarrow> bool" where
  "slug_token t \<longleftrightarrow>
     t \<noteq> [] \<and> (\<forall>c \<in> set t. is_slug_char c \<or> c = CHR ''-'') \<and>
     hd t \<noteq> CHR ''-'' \<and> last t \<noteq> CHR ''-'' \<and> \<not> sublist ''--'' t"


section \<open>The parsed document\<close>

text \<open>
  The extractors work on the tree that the HTML parser returns. A node is a text node
  or an element with its tag name, its list of classes (the parser keeps the
  \<open>class\<close> attribute as a list), its other attributes and its children. The document
  object itself is an element. Comments and other strings that \<open>get_text\<close> does not
  read are not part of the tree.
\<close>

datatype node = Text string | Elem string "string list" "(string \<times> string) list" "node list"

fun tag_name :: "node \<Rightarrow> string" where
  "tag_name (Text s) = []"
| "tag_name (Elem t cl at ch) = t"

fun classes :: "node \<Rightarrow> string list" where
  "classes (Text s) = []"
| "classes (Elem t cl at ch) = cl"

fun attr :: "node \<Rightarrow> string \<Rightarrow> string option" where
  "attr (Text s) k = None"
| "attr (Elem t cl at ch) k = map_of at k"

fun children :: "node \<Rightarrow> node list" where
  "children (Text s) = []"
| "children (Elem t cl at ch) = ch"

definition has_class :: "string \<Rightarrow> node \<Rightarrow> bool" where
  "has_class c n = (c \<in> set (classes n))"

definition is_tag :: "string \<Rightarrow> node \<Rightarrow> bool" where
  "is_tag t n = (tag_name n = t)"

text \<open>The elements of a subtree in document order, the root of the subtree first.\<close>

fun subtree_elems :: "node \<Rightarrow> node list" where
  "subtree_elems (Text s) = []"
| "subtree_elems (Elem t cl at ch) = Elem t cl at ch # concat (map subtree_elems ch)"

definition forest_elems :: "node list \<Rightarrow> node list" where
  "forest_elems ns = concat (map subtree_elems ns)"

definition descendants :: "node \<Rightarrow> node list" where
  "descendants n = forest_elems (children n)"

text \<open>\<open>find\<close>, \<open>find_all\<close>, \<open>select\<close> and \<open>select_one\<close> search the descendants in document order.\<close>

definition find_all :: "(node \<Rightarrow> bool) \<Rightarrow> node \<Rightarrow> node list" where
  "find_all P n = filter P (descendants n)"

definition find_first :: "(node \<Rightarrow> bool) \<Rightarrow> node \<Rightarrow> node option" where
  "find_first P n = List.find P (descendants n)"

text \<open>
  \<open>get_text(sep, strip=True)\<close>: the text nodes of the subtree in document order, each
  stripped, the empty ones dropped, joined by \<open>sep\<close>.
\<close>

fun strings :: "node \<Rightarrow> string list" where
  "strings (Text s) = [s]"
| "strings (Elem t cl at ch) = concat (map strings ch)"

definition stripped_strings :: "node \<Rightarrow> string list" where
  "stripped_strings n = filter (\<lambda>s. s \<noteq> []) (map py_strip (strings n))"

definition get_text :: "string \<Rightarrow> node \<Rightarrow> string" where
  "get_text sep n = py_join sep (stripped_strings n)"

text \<open>\<open>_text(el)\<close>: the text of an element that may be absent.\<close>

definition text_of :: "node option \<Rightarrow> string" where
  "text_of el = (case el of Some n \<Rightarrow> get_text '' '' n | None \<Rightarrow> [])"

text \<open>
  A tag together with its place in the document: the elements that follow it in
  document order (what \<open>find_next\<close> searches) and its parent (\<open>find_parent()\<close>).
\<close>

datatype tag = Tag node "node list" "tag option"

fun tnode :: "tag \<Rightarrow> node" where
  "tnode (Tag n nx p) = n"

fun tnext :: "tag \<Rightarrow> node list" where
  "tnext (Tag n nx p) = nx"

fun find_parent :: "tag \<Rightarrow> tag option" where
  "find_parent (Tag n nx p) = p"

fun ancestors :: "tag \<Rightarrow> node list" where
  "ancestors (Tag n nx None) = []"
| "ancestors (Tag n nx (Some p)) = tnode p # ancestors p"

definition find_next :: "(node \<Rightarrow> bool) \<Rightarrow> tag \<Rightarrow> node option" where
  "find_next P t = List.find P (tnext t)"

text \<open>
  The tags of a forest in document order. \<open>par\<close> is the parent of the forest's roots
  and \<open>k\<close> the elements that follow the forest in the document.
\<close>

fun forest_tags :: "tag option \<Rightarrow> node list \<Rightarrow> node list \<Rightarrow> tag list" where
  "forest_tags par [] k = []"
| "forest_tags par (Text s # ns) k = forest_tags par ns k"
| "forest_tags par (Elem t cl at ch # ns) k =
     (let rest = forest_elems ns @ k;
          me = Tag (Elem t cl at ch) (forest_elems ch @ rest) par
      in me # forest_tags (Some me) ch rest @ forest_tags par ns k)"

definition soup_tag :: "node \<Rightarrow> tag" where
  "soup_tag doc = Tag doc (descendants doc) None"

definition tag_descendants :: "tag \<Rightarrow> tag list" where
  "tag_descendants t =
     forest_tags (Some t) (children (tnode t)) (drop (length (descendants (tnode t))) (tnext t))"


section \<open>The flag store\<close>

text \<open>
  The state the flag functions work on: the module variable \<open>_FLAGS_MAP\<close>, the file
  \<open>mapping.json\<close> (absent, or the JSON object it holds) and the image files on disk
  with their sizes. A JSON object is a Python dict: an association list in insertion
  order; a key of the mapping object that is absent is \<open>None\<close>. The disk holds these
  files and the directories that \<open>_ensure_dirs\<close> creates, which every function that asks
  for a path has called before; paths are compared as strings. The remote site is a
  function from a URL to the length of the body of a successful response.
\<close>

type_synonym dict = "(string \<times> string) list"

record flags =
  id_to_path :: "dict option"
  id_to_name :: "dict option"

record world =
  flags_map :: flags
  mapping_file :: "flags option"
  files :: "(string \<times> nat) list"

type_synonym remote = "string \<Rightarrow> nat option"

definition FLAGS_RAW_DIR :: string where
  "FLAGS_RAW_DIR = ''/workspace/static/flags/raw''"

definition FLAGS_BY_NAME_DIR :: string where
  "FLAGS_BY_NAME_DIR = ''/workspace/static/flags/by-name''"

definition FLAGS_BASE_URL :: string where
  "FLAGS_BASE_URL = ''https://hamariweb.com//cricket/flags/''"

text \<open>
  The directories that \<open>_ensure_dirs\<close> creates, with the ones above them. A path names
  one of them with or without slashes at its end, and a path of slashes only names the
  root.
\<close>

definition ensured_dirs :: "string list" where
  "ensured_dirs =
     [''/workspace'', ''/workspace/static'', ''/workspace/static/flags'',
      FLAGS_RAW_DIR, FLAGS_BY_NAME_DIR]"

definition is_ensured_dir :: "string \<Rightarrow> bool" where
  "is_ensured_dir p =
     (p \<noteq> [] \<and>
      (rev (dropWhile (\<lambda>c. c = CHR ''/'') (rev p)) = [] \<or>
       rev (dropWhile (\<lambda>c. c = CHR ''/'') (rev p)) \<in> set ensured_dirs))"

text \<open>The part of a path up to its last slash: the directory that holds it.\<close>

definition parent_dir :: "string \<Rightarrow> string" where
  "parent_dir p = rev (dropWhile (\<lambda>c. c \<noteq> CHR ''/'') (rev p))"

text \<open>
  \<open>os.path.join(a, b)\<close>, \<open>os.path.basename(p)\<close> and \<open>os.path.exists(p)\<close>, which holds
  of a file on disk and of a directory.
\<close>

definition path_join :: "string \<Rightarrow> string \<Rightarrow> string" where
  "path_join a b =
     (if prefix ''/'' b then b
      else if a = [] \<or> last a = CHR ''/'' then a @ b
      else a @ ''/'' @ b)"

definition basename :: "string \<Rightarrow> string" where
  "basename p = rev (takeWhile (\<lambda>c. c \<noteq> CHR ''/'') (rev p))"

definition path_exists :: "(string \<times> nat) list \<Rightarrow> string \<Rightarrow> bool" where
  "path_exists fs p = (map_of fs p \<noteq> None \<or> is_ensured_dir p)"

text \<open>The truth value of a string that may be \<open>None\<close>, and \<open>a or b\<close> on such values.\<close>

definition truthy :: "string option \<Rightarrow> bool" where
  "truthy v = (case v of None \<Rightarrow> False | Some s \<Rightarrow> s \<noteq> [])"

definition or_none :: "string \<Rightarrow> string option" where
  "or_none s = (if s = [] then None else Some s)"

definition flags_truthy :: "flags \<Rightarrow> bool" where
  "flags_truthy f = (id_to_path f \<noteq> None \<or> id_to_name f \<noteq> None)"

definition dict_or_empty :: "dict option \<Rightarrow> dict" where
  "dict_or_empty d = (case d of None \<Rightarrow> [] | Some x \<Rightarrow> x)"

text \<open>
  \<open>_load_flags_mapping\<close> returns the dict that \<open>_FLAGS_MAP\<close> then names: the model
  returns the state, and the dict is its \<^const>\<open>flags_map\<close>.
\<close>

definition load_flags_mapping :: "world \<Rightarrow> world" where
  "load_flags_mapping w =
     (if flags_truthy (flags_map w) then w
      else w\<lparr>flags_map :=
        (case mapping_file w of
           Some f \<Rightarrow> f
         | None \<Rightarrow> \<lparr>id_to_path = Some [], id_to_name = Some []\<rparr>)\<rparr>)"

definition save_flags_mapping :: "world \<Rightarrow> world" where
  "save_flags_mapping w = w\<lparr>mapping_file := Some (flags_map w)\<rparr>"

text \<open>
  \<open>_download_flag_gif\<close>. A request that fails, a body of less than 100 bytes and a
  destination whose directory does not exist (\<open>open\<close> raises, inside the \<open>try\<close>) give
  \<open>None\<close>.
\<close>

definition download_flag_gif :: "remote \<Rightarrow> world \<Rightarrow> string \<Rightarrow> string option \<times> world" where
  "download_flag_gif net w flag_id =
     (let dst = path_join FLAGS_RAW_DIR (flag_id @ ''.gif'')
      in if path_exists (files w) dst \<and> 0 < the (map_of (files w) dst) then (Some dst, w)
         else (case net (FLAGS_BASE_URL @ flag_id @ ''.gif'') of
                 None \<Rightarrow> (None, w)
               | Some len \<Rightarrow>
                   if len < 100 then (None, w)
                   else if \<not> is_ensured_dir (parent_dir dst) then (None, w)
                   else (Some dst, w\<lparr>files := AList.update dst len (files w)\<rparr>)))"

text \<open>\<open>shutil.copyfile(src, dst)\<close>; the source is a file that exists.\<close>

definition copyfile :: "string \<Rightarrow> string \<Rightarrow> world \<Rightarrow> world" where
  "copyfile src dst w =
     (case map_of (files w) src of
        Some sz \<Rightarrow> w\<lparr>files := AList.update dst sz (files w)\<rparr>
      | None \<Rightarrow> w)"

definition by_name_candidate :: "string \<Rightarrow> nat \<Rightarrow> string" where
  "by_name_candidate base k = path_join FLAGS_BY_NAME_DIR (base @ ''-'' @ digits_of k @ ''.gif'')"

lemma digits_of_nonempty: "digits_of n \<noteq> []"
  by (subst digits_of.simps) simp

lemma digit_char_inj: "a < 10 \<Longrightarrow> b < 10 \<Longrightarrow> digit_char a = digit_char b \<Longrightarrow> a = b"
proof -
  assume a: "a < 10" "b < 10" "digit_char a = digit_char b"
  have d: "distinct ''0123456789''" by simp
  have l: "length ''0123456789'' = 10" by simp
  from a l have "a < length ''0123456789''" "b < length ''0123456789''" by simp_all
  with d a(3) show ?thesis unfolding digit_char_def by (simp only: nth_eq_iff_index_eq)
qed

lemma digits_of_inj: "digits_of n = digits_of m \<Longrightarrow> n = m"
proof (induction n arbitrary: m rule: less_induct)
  case (less n)
  show ?case
  proof (cases "n < 10")
    case True
    then have n1: "digits_of n = [digit_char n]" by (subst digits_of.simps) simp
    show ?thesis
    proof (cases "m < 10")
      case m: True
      then have "digits_of m = [digit_char m]" by (subst digits_of.simps) simp
      with n1 less.prems have "digit_char n = digit_char m" by simp
      with True m show ?thesis by (rule digit_char_inj)
    next
      case m: False
      then have "digits_of m = digits_of (m div 10) @ [digit_char (m mod 10)]"
        by (subst digits_of.simps) simp
      with n1 less.prems have "digits_of (m div 10) = []" by simp
      with digits_of_nonempty show ?thesis by blast
    qed
  next
    case False
    then have n2: "digits_of n = digits_of (n div 10) @ [digit_char (n mod 10)]"
      by (subst digits_of.simps) simp
    show ?thesis
    proof (cases "m < 10")
      case m: True
      then have "digits_of m = [digit_char m]" by (subst digits_of.simps) simp
      with n2 less.prems have "digits_of (n div 10) = []" by simp
      with digits_of_nonempty show ?thesis by blast
    next
      case m: False
      then have "digits_of m = digits_of (m div 10) @ [digit_char (m mod 10)]"
        by (subst digits_of.simps) simp
      with n2 less.prems have e: "digits_of (n div 10) = digits_of (m div 10)"
        and c: "digit_char (n mod 10) = digit_char (m mod 10)" by simp_all
      from False have "n div 10 < n" by simp
      with less.IH e have q: "n div 10 = m div 10" by blast
      have "n mod 10 < 10" "m mod 10 < 10" by simp_all
      with c have r: "n mod 10 = m mod 10" by (metis digit_char_inj)
      from q r show ?thesis by (metis div_mult_mod_eq)
    qed
  qed
qed

lemma by_name_candidate_inj: "by_name_candidate base j = by_name_candidate base k \<Longrightarrow> j = k"
proof -
  assume e: "by_name_candidate base j = by_name_candidate base k"
  have p: "prefix ''/'' (base @ ''-'' @ digits_of j @ ''.gif'')
         = prefix ''/'' (base @ ''-'' @ digits_of k @ ''.gif'')"
    by (cases base) simp_all
  have "base @ ''-'' @ digits_of j @ ''.gif'' = base @ ''-'' @ digits_of k @ ''.gif''"
    using e p unfolding by_name_candidate_def path_join_def FLAGS_BY_NAME_DIR_def
    by (simp split: if_splits)
  then have "digits_of j = digits_of k" by simp
  then show ?thesis by (rule digits_of_inj)
qed

lemma is_ensured_dir_finite: "finite {p. is_ensured_dir p \<and> last p \<noteq> CHR ''/''}"
proof -
  have "{p. is_ensured_dir p \<and> last p \<noteq> CHR ''/''} \<subseteq> set ensured_dirs"
  proof
    fix p assume "p \<in> {p. is_ensured_dir p \<and> last p \<noteq> CHR ''/''}"
    then have d: "is_ensured_dir p" and l: "last p \<noteq> CHR ''/''" by simp_all
    from d have ne: "p \<noteq> []" by (simp add: is_ensured_dir_def)
    have "rev (dropWhile (\<lambda>c. c = CHR ''/'') (rev p)) = p"
    proof (cases p rule: rev_cases)
      case Nil
      then show ?thesis by simp
    next
      case (snoc ys y)
      with l show ?thesis by simp
    qed
    with d ne show "p \<in> set ensured_dirs" by (simp add: is_ensured_dir_def)
  qed
  then show ?thesis by (rule finite_subset) simp
qed

lemma by_name_candidate_last: "last (by_name_candidate base k) \<noteq> CHR ''/''"
  by (simp add: by_name_candidate_def path_join_def FLAGS_BY_NAME_DIR_def)

lemma by_name_taken_finite: "finite {k. path_exists fs (by_name_candidate base k)}"
proof -
  let ?S = "fst ` set fs \<union> {p. is_ensured_dir p \<and> last p \<noteq> CHR ''/''}"
  have "{k. path_exists fs (by_name_candidate base k)} \<subseteq> by_name_candidate base -` ?S"
    using by_name_candidate_last[of base]
    by (auto simp: path_exists_def map_of_eq_None_iff)
  moreover have "finite (by_name_candidate base -` ?S)"
    by (rule finite_vimageI) (auto simp: inj_on_def is_ensured_dir_finite dest: by_name_candidate_inj)
  ultimately show ?thesis by (rule finite_subset)
qed

text \<open>
  The loop of \<open>_ensure_flag_local\<close> that looks for a free name: \<open>mapped\<close> is
  \<open>id_to_path.get(flag_id)\<close>. It ends because the candidates are all different and the
  disk holds finitely many files.
\<close>

function pick_out_path ::
  "(string \<times> nat) list \<Rightarrow> string option \<Rightarrow> string \<Rightarrow> string \<Rightarrow> nat \<Rightarrow> string" where
  "pick_out_path fs mapped base out_path sfx =
     (if path_exists fs out_path then
        (if mapped = Some (''/static/flags/by-name/'' @ basename out_path) then out_path
         else pick_out_path fs mapped base (by_name_candidate base sfx) (Suc sfx))
      else out_path)"
  by pat_completeness auto
termination
proof (relation "measure (\<lambda>(fs, mapped, base, out_path, sfx).
    card {k. sfx \<le> k \<and> path_exists fs (by_name_candidate base k)}
    + (if path_exists fs out_path then 1 else 0))")
  show "wf (measure (\<lambda>(fs, mapped, base, out_path, sfx).
    card {k. sfx \<le> k \<and> path_exists fs (by_name_candidate base k)}
    + (if path_exists fs out_path then 1 else 0)))" by simp
next
  fix fs :: "(string \<times> nat) list" and mapped :: "string option"
    and base out_path :: string and sfx :: nat
  assume ex: "path_exists fs out_path"
  let ?A = "\<lambda>s. {k. s \<le> k \<and> path_exists fs (by_name_candidate base k)}"
  have fin: "finite (?A sfx)"
    by (rule finite_subset[OF _ by_name_taken_finite[of fs base]]) auto
  have "card (?A (Suc sfx)) + (if path_exists fs (by_name_candidate base sfx) then 1 else 0)
        = card (?A sfx)"
  proof (cases "path_exists fs (by_name_candidate base sfx)")
    case True
    then have "?A sfx = insert sfx (?A (Suc sfx))" by (auto simp: le_Suc_eq)
    moreover have "sfx \<notin> ?A (Suc sfx)" by simp
    moreover have "finite (?A (Suc sfx))"
      by (rule finite_subset[OF _ by_name_taken_finite[of fs base]]) auto
    ultimately show ?thesis using True by simp
  next
    case False
    then have "\<And>k. (sfx \<le> k \<and> path_exists fs (by_name_candidate base k))
        = (Suc sfx \<le> k \<and> path_exists fs (by_name_candidate base k))"
      by (metis Suc_leD Suc_leI le_neq_implies_less)
    then have "?A sfx = ?A (Suc sfx)" by simp
    with False show ?thesis by simp
  qed
  with ex show "((fs, mapped, base, by_name_candidate base sfx, Suc sfx),
                 (fs, mapped, base, out_path, sfx))
      \<in> measure (\<lambda>(fs, mapped, base, out_path, sfx).
          card {k. sfx \<le> k \<and> path_exists fs (by_name_candidate base k)}
          + (if path_exists fs out_path then 1 else 0))"
    by simp
qed

declare pick_out_path.simps [simp del]

text \<open>
  \<open>_ensure_flag_local\<close>. Its call of \<open>_ensure_dirs\<close> creates the directories that
  \<^const>\<open>path_exists\<close> knows and changes nothing of the state.
\<close>

definition set_default_keys :: "flags \<Rightarrow> flags" where
  "set_default_keys f =
     \<lparr>id_to_path = Some (dict_or_empty (id_to_path f)),
      id_to_name = Some (dict_or_empty (id_to_name f))\<rparr>"

definition set_path :: "string \<Rightarrow> string \<Rightarrow> world \<Rightarrow> world" where
  "set_path flag_id p w =
     w\<lparr>flags_map := (flags_map w)
        \<lparr>id_to_path := Some (AList.update flag_id p (dict_or_empty (id_to_path (flags_map w))))\<rparr>\<rparr>"

definition set_name :: "string \<Rightarrow> string \<Rightarrow> world \<Rightarrow> world" where
  "set_name flag_id nm w =
     w\<lparr>flags_map := (flags_map w)
        \<lparr>id_to_name := Some (AList.update flag_id nm (dict_or_empty (id_to_name (flags_map w))))\<rparr>\<rparr>"

definition ensure_flag_local ::
  "remote \<Rightarrow> world \<Rightarrow> string \<Rightarrow> string \<Rightarrow> string option \<times> world" where
  "ensure_flag_local net w0 flag_id team_name =
     (let w1 = load_flags_mapping w0;
          w = w1\<lparr>flags_map := set_default_keys (flags_map w1)\<rparr>;
          existing = map_of (dict_or_empty (id_to_path (flags_map w))) flag_id
      in if truthy existing \<and>
            path_exists (files w) (path_join ''/workspace'' (lstrip_chars ''/'' (the existing)))
         then
           (if team_name \<noteq> [] \<and>
               map_of (dict_or_empty (id_to_name (flags_map w))) flag_id \<noteq> Some team_name
            then (existing, save_flags_mapping (set_name flag_id team_name w))
            else (existing, w))
         else
           (case download_flag_gif net w flag_id of
              (None, w2) \<Rightarrow> (None, w2)
            | (Some raw_path, w2) \<Rightarrow>
                (let base = slugify (if team_name \<noteq> [] then team_name else ''flag-'' @ flag_id);
                     out_path = pick_out_path (files w2) existing base
                                  (path_join FLAGS_BY_NAME_DIR (base @ ''.gif'')) 2;
                     w3 = copyfile raw_path out_path w2;
                     rel_path = ''/static/flags/by-name/'' @ basename out_path;
                     w4 = set_path flag_id rel_path w3;
                     w5 = (if team_name \<noteq> [] then set_name flag_id team_name w4 else w4)
                 in (Some rel_path, save_flags_mapping w5))))"

text \<open>\<open>_local_gif_for_src\<close> and \<open>_norm_src\<close>.\<close>

definition local_gif_for_src :: "world \<Rightarrow> string option \<Rightarrow> string option \<times> world" where
  "local_gif_for_src w src =
     (if \<not> truthy src then (None, w)
      else (case flag_search (the src) of
              None \<Rightarrow> (None, w)
            | Some flag_id \<Rightarrow>
                (let w1 = load_flags_mapping w
                 in (map_of (dict_or_empty (id_to_path (flags_map w1))) flag_id, w1))))"

definition norm_src :: "world \<Rightarrow> string option \<Rightarrow> string option \<times> world" where
  "norm_src w src =
     (if \<not> truthy src then (None, w)
      else (case local_gif_for_src w src of
              (local, w1) \<Rightarrow>
                if truthy local then (local, w1)
                else if prefix ''data:'' (the src) then (None, w1)
                else if prefix ''//'' (the src) then (Some (''https:'' @ the src), w1)
                else if prefix ''/'' (the src) then (Some (''https://hamariweb.com'' @ the src), w1)
                else (src, w1)))"

text \<open>
  The local path that the mapping holds for a flag id, once the mapping is loaded; and
  the flag path pattern in words: a directory \<open>cricflag/\<close> or \<open>flags/\<close>, a non-empty
  run of digits, a dot and the extension \<open>png\<close> or \<open>gif\<close>, somewhere in the reference.
\<close>

definition known_path :: "world \<Rightarrow> string \<Rightarrow> string option" where
  "known_path w flag_id =
     map_of (dict_or_empty (id_to_path (flags_map (load_flags_mapping w)))) flag_id"

definition flag_pattern :: "string \<Rightarrow> string \<Rightarrow> bool" where
  "flag_pattern s flag_id \<longleftrightarrow>
     flag_id \<noteq> [] \<and> list_all is_digit flag_id \<and>
     (\<exists>pre dir ext post.
        s = pre @ dir @ flag_id @ ''.'' @ ext @ post \<and>
        (dir = ''cricflag/'' \<or> dir = ''flags/'') \<and> (ext = ''png'' \<or> ext = ''gif''))"

text \<open>
  A remote site that answers no request, and a state in which the mapping knows flag 12
  and nothing is on disk.
\<close>

definition no_network :: remote where
  "no_network url = None"


definition sample_world :: world where
  "sample_world =
     \<lparr>flags_map = \<lparr>id_to_path = Some [(''12'', ''/static/flags/by-name/pk.gif'')],
                    id_to_name = Some [(''12'', ''Pk'')]\<rparr>,
      mapping_file = None, files = []\<rparr>"




section \<open>The schedule extractor\<close>

record match_record =
  title :: string
  teams :: "string list"
  team_images :: "string option list"
  status :: "string option"
  time_or_venue :: "string option"
  link :: "string option"

text \<open>
  Both passes resolve the image of a team in the same way: when the raw reference and
  the name are non-empty and the reference holds a flag id, \<open>_ensure_flag_local\<close> is
  called; the image is its result, or else (\<open>enriched or _norm_src(raw)\<close>) the
  normalised raw reference.
\<close>

definition team_image ::
  "remote \<Rightarrow> world \<Rightarrow> string option \<Rightarrow> string \<Rightarrow> string option \<times> world" where
  "team_image net w raw name_text =
     (case (if truthy raw \<and> name_text \<noteq> [] then flag_search (the raw) else None) of
        Some flag_id \<Rightarrow>
          (case ensure_flag_local net w flag_id name_text of
             (enriched, w1) \<Rightarrow> if truthy enriched then (enriched, w1) else norm_src w1 raw)
      | None \<Rightarrow> norm_src w raw)"

text \<open>A loop that appends the records its body yields, the state passed along.\<close>

fun collect ::
  "(world \<Rightarrow> node \<Rightarrow> match_record option \<times> world) \<Rightarrow> world \<Rightarrow> node list
    \<Rightarrow> match_record list \<times> world" where
  "collect f w [] = ([], w)"
| "collect f w (x # xs) =
     (case f w x of
        (r, w1) \<Rightarrow>
          (case collect f w1 xs of
             (rs, w2) \<Rightarrow> ((case r of Some y \<Rightarrow> y # rs | None \<Rightarrow> rs), w2)))"

definition has_href :: "node \<Rightarrow> bool" where
  "has_href n = (is_tag ''a'' n \<and> attr n ''href'' \<noteq> None)"

text \<open>
  The test under "Skip empty entries", the same in both passes: the record is kept when
  the title, the teams or the time field is non-empty.
\<close>

definition keep_record :: "string \<Rightarrow> string list \<Rightarrow> string option \<Rightarrow> bool" where
  "keep_record ttl tms tv =
     ((ttl \<noteq> [] \<and> py_strip ttl \<noteq> []) \<or> tms \<noteq> [] \<or> (truthy tv \<and> py_strip (the tv) \<noteq> []))"

subsection \<open>The card pass: \<open>_parse_match_updates\<close>\<close>

text \<open>
  The title and the status of a card: the text of the first \<open>p\<close>, and the text of the
  first \<open>small\<close> inside it; when there is such a \<open>small\<close>, its text is replaced by
  nothing in the title and the title is stripped.
\<close>

definition card_title_status :: "node \<Rightarrow> string \<times> string option" where
  "card_title_status mu =
     (let p_tag = find_first (is_tag ''p'') mu;
          raw_title = (case p_tag of Some p \<Rightarrow> get_text '' '' p | None \<Rightarrow> []);
          status_tag = (case p_tag of Some p \<Rightarrow> find_first (is_tag ''small'') p | None \<Rightarrow> None);
          status_text = (case status_tag of Some s \<Rightarrow> Some (get_text [] s) | None \<Rightarrow> None)
      in (case status_text of
            Some st \<Rightarrow> (py_strip (py_replace st [] raw_title), status_text)
          | None \<Rightarrow> (raw_title, status_text)))"

text \<open>
  The name of a \<open>.teamname\<close> node: the text of its first \<open>span\<close> without the class
  \<open>score\<close>, or its own text.
\<close>

definition team_name_text :: "node \<Rightarrow> string" where
  "team_name_text tn =
     (case List.find (\<lambda>sp. ''score'' \<notin> set (classes sp)) (find_all (is_tag ''span'') tn) of
        Some name_span \<Rightarrow> get_text [] name_span
      | None \<Rightarrow> get_text '' '' tn)"

text \<open>The body of the loop over the \<open>.teamname\<close> nodes of a card.\<close>

definition card_team ::
  "remote \<Rightarrow> string list \<times> string option list \<times> world \<Rightarrow> node
    \<Rightarrow> string list \<times> string option list \<times> world" where
  "card_team net st tn =
     (case st of
        (tms, imgs, w) \<Rightarrow>
          (let name_text = team_name_text tn;
               tms1 = (if name_text \<noteq> [] then tms @ [name_text] else tms);
               img_src_raw = (case find_first (is_tag ''img'') tn of
                                Some img \<Rightarrow> attr img ''src''
                              | None \<Rightarrow> None)
           in case team_image net w img_src_raw name_text of
                (img_src, w1) \<Rightarrow> (tms1, imgs @ [img_src], w1)))"

definition card_time_or_venue :: "node \<Rightarrow> string option" where
  "card_time_or_venue mu =
     (case find_first (has_class ''match_result'') mu of
        Some res \<Rightarrow> Some (get_text '' '' res)
      | None \<Rightarrow> None)"

text \<open>The body of the loop over the \<open>.match_update\<close> cards.\<close>

definition card_record :: "remote \<Rightarrow> world \<Rightarrow> node \<Rightarrow> match_record option \<times> world" where
  "card_record net w mu =
     (case card_title_status mu of
        (ttl, status_text) \<Rightarrow>
          (case foldl (card_team net) ([], [], w) (find_all (has_class ''teamname'') mu) of
             (tms0, imgs0, w1) \<Rightarrow>
               (let tms = (if 2 < length tms0 then take 2 tms0 else tms0);
                    imgs = (if 2 < length tms0 then take 2 imgs0 else imgs0);
                    href = (case find_first has_href mu of
                              Some link_tag \<Rightarrow> attr link_tag ''href''
                            | None \<Rightarrow> None)
                in case norm_src w1 href of
                     (href1, w2) \<Rightarrow>
                       (let tv = card_time_or_venue mu
                        in if \<not> keep_record ttl tms tv then (None, w2)
                           else (Some \<lparr>title = ttl, teams = tms, team_images = imgs,
                                       status = status_text, time_or_venue = tv,
                                       link = href1\<rparr>, w2)))))"

definition parse_match_updates ::
  "remote \<Rightarrow> world \<Rightarrow> node \<Rightarrow> match_record list \<times> world" where
  "parse_match_updates net w root =
     collect (card_record net) w (find_all (has_class ''match_update'') root)"

subsection \<open>The table pass: \<open>_parse_schedule_table\<close>\<close>

text \<open>The name of an \<open>a.team_name\<close> link: the text of its first \<open>span\<close>, or its own text.\<close>

definition link_name_text :: "node \<Rightarrow> string" where
  "link_name_text a =
     (case find_first (is_tag ''span'') a of
        Some name_span \<Rightarrow> get_text [] name_span
      | None \<Rightarrow> get_text '' '' a)"

text \<open>The body of the loop over the first two \<open>a.team_name\<close> links of the first cell.\<close>

definition table_team ::
  "remote \<Rightarrow> string list \<times> string option list \<times> string option \<times> world \<Rightarrow> node
    \<Rightarrow> string list \<times> string option list \<times> string option \<times> world" where
  "table_team net st a =
     (case st of
        (names, imgs, lnk, w) \<Rightarrow>
          (let nm = link_name_text a;
               names1 = (if nm \<noteq> [] then names @ [nm] else names);
               raw = (case find_first (is_tag ''img'') a of
                        Some img \<Rightarrow>
                          (if truthy (attr img ''data-src'') then attr img ''data-src''
                           else attr img ''src'')
                      | None \<Rightarrow> None)
           in case team_image net w raw nm of
                (img, w1) \<Rightarrow>
                  (if \<not> truthy lnk \<and> truthy (attr a ''href'')
                   then (case norm_src w1 (attr a ''href'') of
                           (lnk1, w2) \<Rightarrow> (names1, imgs @ [img], lnk1, w2))
                   else (names1, imgs @ [img], lnk, w1))))"

text \<open>
  The match type, the date and time, the composed title and the status of a row, from
  its cells and the names of its teams.
\<close>

definition row_match_type :: "node list \<Rightarrow> string option" where
  "row_match_type tds = (if 2 \<le> length tds then or_none (get_text '' '' (tds ! 1)) else None)"

definition row_date_time :: "node list \<Rightarrow> string option" where
  "row_date_time tds = (if 3 \<le> length tds then or_none (get_text '' '' (tds ! 2)) else None)"

definition row_title :: "string list \<Rightarrow> string option \<Rightarrow> string" where
  "row_title teams_names match_type =
     (let title_parts =
            (if teams_names \<noteq> [] then [py_join '' vs '' (take 2 teams_names)] else [])
            @ (if truthy match_type then [the match_type] else [])
      in if title_parts \<noteq> [] then py_join '', '' title_parts
         else (case match_type of Some m \<Rightarrow> m | None \<Rightarrow> []))"

definition row_status :: "string option \<Rightarrow> string option" where
  "row_status date_time =
     (if truthy date_time \<and> time_marker (the date_time) then Some ''Upcoming'' else None)"

text \<open>
  The body of the loop over the rows. A row without cells is skipped, so the first cell
  is read from a non-empty list.
\<close>

definition table_row :: "remote \<Rightarrow> world \<Rightarrow> node \<Rightarrow> match_record option \<times> world" where
  "table_row net w tr =
     (case find_all (is_tag ''td'') tr of
        [] \<Rightarrow> (None, w)
      | td0 # tds_rest \<Rightarrow>
          (let tds = td0 # tds_rest;
               team_cells = find_all (\<lambda>n. is_tag ''a'' n \<and> has_class ''team_name'' n) td0
           in case foldl (table_team net) ([], [], None, w) (take 2 team_cells) of
                (teams_names, imgs, lnk0, w1) \<Rightarrow>
                  (case (if \<not> truthy lnk0
                         then (case find_first has_href td0 of
                                 Some series_link \<Rightarrow> norm_src w1 (attr series_link ''href'')
                               | None \<Rightarrow> (lnk0, w1))
                         else (lnk0, w1)) of
                     (lnk, w2) \<Rightarrow>
                       (let match_type = row_match_type tds;
                            date_time = row_date_time tds;
                            ttl = row_title teams_names match_type;
                            stat = row_status date_time
                        in if \<not> keep_record ttl teams_names date_time then (None, w2)
                           else (Some \<lparr>title = ttl, teams = teams_names, team_images = imgs,
                                       status = stat, time_or_venue = date_time,
                                       link = lnk\<rparr>, w2)))))"

text \<open>
  The table of the pass: after a heading whose text holds "schedule", the table of the
  next \<open>div\<close> with a class matching \<open>table-responsive\<close>, or the next table when there is
  no such \<open>div\<close>; without such a heading, the first \<open>table.table\<close> under the root.
\<close>

definition is_heading :: "node \<Rightarrow> bool" where
  "is_heading n = (tag_name n \<in> set [''h2'', ''h3'', ''h1''])"

definition is_responsive_div :: "node \<Rightarrow> bool" where
  "is_responsive_div n =
     (is_tag ''div'' n \<and> list_ex (\<lambda>c. sublist ''table-responsive'' c) (classes n))"

definition locate_schedule_table :: "tag \<Rightarrow> node option" where
  "locate_schedule_table root =
     (case List.find (\<lambda>h. sublist ''schedule'' (py_lower (get_text '' '' (tnode h))))
             (filter (\<lambda>t. is_heading (tnode t)) (tag_descendants root)) of
        Some schedule_heading \<Rightarrow>
          (case find_next is_responsive_div schedule_heading of
             Some wrapper \<Rightarrow> find_first (is_tag ''table'') wrapper
           | None \<Rightarrow> find_next (is_tag ''table'') schedule_heading)
      | None \<Rightarrow> find_first (\<lambda>n. is_tag ''table'' n \<and> has_class ''table'' n) (tnode root))"

definition parse_schedule_table ::
  "remote \<Rightarrow> world \<Rightarrow> tag \<Rightarrow> match_record list \<times> world" where
  "parse_schedule_table net w root =
     (case locate_schedule_table root of
        None \<Rightarrow> ([], w)
      | Some table \<Rightarrow> collect (table_row net) w (find_all (is_tag ''tr'') table))"

subsection \<open>The root and the merge: \<open>parse_schedules_html\<close>\<close>

fun first_by_id :: "tag list \<Rightarrow> string list \<Rightarrow> tag option" where
  "first_by_id ds [] = None"
| "first_by_id ds (c # cs) =
     (case List.find (\<lambda>t. attr (tnode t) ''id'' = Some c) ds of
        Some el \<Rightarrow> Some el
      | None \<Rightarrow> first_by_id ds cs)"

definition find_content_root :: "node \<Rightarrow> tag" where
  "find_content_root doc =
     (let soup = soup_tag doc; ds = tag_descendants soup
      in case first_by_id ds [''main'', ''content'', ''mainContent'', ''ContentPlaceHolder1''] of
           Some el \<Rightarrow> el
         | None \<Rightarrow>
             (case List.find (\<lambda>t. is_tag ''main'' (tnode t)) ds of
                Some m \<Rightarrow> m
              | None \<Rightarrow>
                  (case List.find (\<lambda>t. is_tag ''body'' (tnode t)) ds of
                     Some b \<Rightarrow> b
                   | None \<Rightarrow> soup)))"

definition key_for :: "match_record \<Rightarrow> string" where
  "key_for it =
     title it @ ''|'' @ py_join ''-'' (teams it) @ ''|''
       @ (case time_or_venue it of Some t \<Rightarrow> t | None \<Rightarrow> [])"

text \<open>The loop of the merge, with its set \<open>seen\<close> and its list \<open>merged\<close>.\<close>

fun merge_loop :: "string set \<Rightarrow> match_record list \<Rightarrow> match_record list \<Rightarrow> match_record list" where
  "merge_loop seen merged [] = merged"
| "merge_loop seen merged (it # its) =
     (if key_for it \<in> seen then merge_loop seen merged its
      else merge_loop (insert (key_for it) seen) (merged @ [it]) its)"

definition merge_items :: "match_record list \<Rightarrow> match_record list \<Rightarrow> match_record list" where
  "merge_items card_items table_items = merge_loop {} [] (card_items @ table_items)"

text \<open>\<open>parse_schedules_html\<close>, from the parsed document.\<close>

definition parse_schedules_html :: "remote \<Rightarrow> world \<Rightarrow> node \<Rightarrow> match_record list \<times> world" where
  "parse_schedules_html net w doc =
     (let root = find_content_root doc
      in case parse_match_updates net w (tnode root) of
           (card_items, w1) \<Rightarrow>
             (case parse_schedule_table net w1 root of
                (table_items, w2) \<Rightarrow> (merge_items card_items table_items, w2)))"

text \<open>
  Sample cards: one whose title holds the status text twice, one whose only team node
  has no text, and one with three team nodes of which the first has no text.
\<close>

definition sample_card :: node where
  "sample_card =
     Elem ''div'' [''match_update''] []
       [Elem ''p'' [] [] [Text ''Live Final '', Elem ''small'' [] [] [Text ''Live'']]]"



text \<open>
  A sample page: a card with a status, and a table of two rows, the first with a time
  in its third cell and the second with a date only.
\<close>

definition sample_page :: node where
  "sample_page =
     Elem ''[document]'' [] []
       [Elem ''div'' [''match_update''] []
          [Elem ''p'' [] [] [Text ''Final '', Elem ''small'' [] [] [Text ''Live'']],
           Elem ''div'' [''teamname''] [] [Text ''A''],
           Elem ''div'' [''teamname''] [] [Text ''B'']],
        Elem ''table'' [''table''] []
          [Elem ''tr'' [] []
             [Elem ''td'' [] [] [Elem ''a'' [''team_name''] [] [Text ''C'']],
              Elem ''td'' [] [] [Text ''T20''],
              Elem ''td'' [] [] [Text ''3 PM'']],
           Elem ''tr'' [] []
             [Elem ''td'' [] [] [],
              Elem ''td'' [] [] [],
              Elem ''td'' [] [] [Text ''12 May'']],
           Elem ''tr'' [] [] [Elem ''td'' [] [] []]]]"









text \<open>
  Rows whose third cell holds a time with the zone \<open>GMT\<close>, and a venue.
\<close>

definition gmt_row :: node where
  "gmt_row =
     Elem ''tr'' [] []
       [Elem ''td'' [] [] [], Elem ''td'' [] [] [Text ''T20''],
        Elem ''td'' [] [] [Text ''15:00 GMT'']]"

definition venue_row :: node where
  "venue_row =
     Elem ''tr'' [] []
       [Elem ''td'' [] [] [], Elem ''td'' [] [] [Text ''T20''],
        Elem ''td'' [] [] [Text ''Southampton'']]"

text \<open>
  Two records with different titles and teams and the same key, the page with the two
  cards that give them, and a page with an empty card, a card with the time field only,
  a row with a date only and an empty row.
\<close>

definition bar_title_record :: match_record where
  "bar_title_record =
     \<lparr>title = ''T|'', teams = [], team_images = [], status = None,
      time_or_venue = None, link = None\<rparr>"

definition bar_team_record :: match_record where
  "bar_team_record =
     \<lparr>title = ''T'', teams = [''|''], team_images = [None], status = None,
      time_or_venue = None, link = None\<rparr>"

definition bar_page :: node where
  "bar_page =
     Elem ''[document]'' [] []
       [Elem ''div'' [''match_update''] [] [Elem ''p'' [] [] [Text ''T|'']],
        Elem ''div'' [''match_update''] []
          [Elem ''p'' [] [] [Text ''T''], Elem ''div'' [''teamname''] [] [Text ''|'']]]"


section \<open>The scorecard extractor\<close>

text \<open>
  The scorecard functions read lists by index and call a method on the result of
  \<open>find_parent()\<close>. Each such step is a value of a sum type here: \<open>Inl\<close> is the
  exception that the step raises when the index is out of range or the object is
  \<open>None\<close>.
\<close>

datatype py_error = IndexError | AttributeError

definition py_index :: "'a list \<Rightarrow> nat \<Rightarrow> py_error + 'a" where
  "py_index xs i = (if i < length xs then Inr (xs ! i) else Inl IndexError)"

fun sequence_e :: "(py_error + 'a) list \<Rightarrow> py_error + 'a list" where
  "sequence_e [] = Inr []"
| "sequence_e (x # xs) =
     (case x of
        Inl e \<Rightarrow> Inl e
      | Inr v \<Rightarrow> (case sequence_e xs of Inl e \<Rightarrow> Inl e | Inr vs \<Rightarrow> Inr (v # vs)))"

fun fold_e :: "('s \<Rightarrow> 'a \<Rightarrow> py_error + 's) \<Rightarrow> 's \<Rightarrow> 'a list \<Rightarrow> py_error + 's" where
  "fold_e f s [] = Inr s"
| "fold_e f s (x # xs) = (case f s x of Inl e \<Rightarrow> Inl e | Inr s1 \<Rightarrow> fold_e f s1 xs)"

record batting_entry =
  bat_name :: string
  dismissal :: "string option"
  runs :: "string option"
  balls :: "string option"
  fours :: "string option"
  sixes :: "string option"
  sr :: "string option"

record bowling_entry =
  bowl_name :: string
  bowl_ov :: string
  bowl_m :: string
  bowl_r :: string
  bowl_w :: string
  bowl_econ :: string

record innings =
  batting :: "batting_entry list"
  extras :: "string option"
  total :: "string option"
  info_note :: "string option"
  bowling :: "bowling_entry list option"
  team :: "string option"

record scorecard =
  ok :: bool
  sc_title :: "string option"
  sc_teams :: "string list"
  info :: "(string \<times> string) list"
  innings_list :: "innings list"
  batting_count :: nat
  bowling_count :: nat

subsection \<open>\<open>_parse_batting_table\<close>\<close>

text \<open>\<open>_text(td)\<close> of a cell; \<open>_text(tds[i]) if len(tds) > i else None\<close>; and \<open>" ".join(_text(td) for td in tds[1:]).strip() or None\<close>.\<close>

definition cell_text :: "node \<Rightarrow> string" where
  "cell_text td = text_of (Some td)"

definition stat_cell :: "node list \<Rightarrow> nat \<Rightarrow> py_error + string option" where
  "stat_cell tds i =
     (if i < length tds
      then (case py_index tds i of Inl e \<Rightarrow> Inl e | Inr td \<Rightarrow> Inr (Some (cell_text td)))
      else Inr None)"

definition rest_text :: "node list \<Rightarrow> string option" where
  "rest_text tds = or_none (py_strip (py_join '' '' (map cell_text (drop 1 tds))))"

text \<open>
  The name of a player row, \<open>_text(name_b) or _text(tds[0])\<close>, and the statistic at an
  index, \<open>_text(tds[i]) if len(tds) > i else None\<close>, as values.
\<close>

definition row_name :: "node \<Rightarrow> string" where
  "row_name td0 =
     (if text_of (find_first (is_tag ''b'') td0) \<noteq> [] then text_of (find_first (is_tag ''b'') td0)
      else cell_text td0)"

definition stat_text :: "node list \<Rightarrow> nat \<Rightarrow> string option" where
  "stat_text tds i = (if i < length tds then Some (cell_text (tds ! i)) else None)"

text \<open>
  The body of the loop over the rows; the state is \<open>batting\<close>, \<open>extras\<close> and \<open>total\<close>.
\<close>

definition batting_row ::
  "batting_entry list \<times> string option \<times> string option \<Rightarrow> node
    \<Rightarrow> py_error + (batting_entry list \<times> string option \<times> string option)" where
  "batting_row st tr =
     (case st of
        (bat, ext, tot) \<Rightarrow>
          (let tds = find_all (is_tag ''td'') tr
           in if tds = [] then Inr st
              else (case py_index tds 0 of
                      Inl e \<Rightarrow> Inl e
                    | Inr td0 \<Rightarrow>
                        (let label = py_lower (cell_text td0)
                         in if prefix ''extras'' label then Inr (bat, rest_text tds, tot)
                            else if prefix ''total'' label then Inr (bat, ext, rest_text tds)
                            else
                              (let name_b = find_first (is_tag ''b'') td0;
                                   dismiss_small = find_first (is_tag ''small'') td0;
                                   nm = (if text_of name_b \<noteq> [] then text_of name_b
                                         else cell_text td0);
                                   dis = or_none (text_of dismiss_small)
                               in case sequence_e (map (stat_cell tds) [1, 2, 3, 4, 5]) of
                                    Inl e \<Rightarrow> Inl e
                                  | Inr stats \<Rightarrow>
                                      (if nm \<noteq> [] \<and> list_ex truthy stats \<and>
                                          \<not> prefix ''did not bat'' label
                                       then (case sequence_e (map (py_index stats) [0, 1, 2, 3, 4]) of
                                               Inl e \<Rightarrow> Inl e
                                             | Inr ss \<Rightarrow>
                                                 Inr (bat @ [\<lparr>bat_name = nm, dismissal = dis,
                                                              runs = ss ! 0, balls = ss ! 1,
                                                              fours = ss ! 2, sixes = ss ! 3,
                                                              sr = ss ! 4\<rparr>], ext, tot))
                                       else Inr st))))))"

definition table_rows :: "node \<Rightarrow> node list" where
  "table_rows table =
     find_all (is_tag ''tr'')
       (case find_first (is_tag ''tbody'') table of Some tbody \<Rightarrow> tbody | None \<Rightarrow> table)"

definition parse_batting_table :: "node \<Rightarrow> py_error + innings" where
  "parse_batting_table table =
     (case fold_e batting_row ([], None, None) (table_rows table) of
        Inl e \<Rightarrow> Inl e
      | Inr (bat, ext, tot) \<Rightarrow>
          Inr \<lparr>batting = bat, extras = ext, total = tot, info_note = None,
               bowling = None, team = None\<rparr>)"

subsection \<open>\<open>_parse_bowling_table\<close>\<close>

definition bowling_row :: "bowling_entry list \<Rightarrow> node \<Rightarrow> py_error + bowling_entry list" where
  "bowling_row bowlers tr =
     (let tds = find_all (is_tag ''td'') tr
      in if tds = [] \<or> length tds < 6 then Inr bowlers
         else (case sequence_e (map (py_index tds) [0, 1, 2, 3, 4, 5]) of
                 Inl e \<Rightarrow> Inl e
               | Inr cells \<Rightarrow>
                   (let c = map cell_text cells
                    in if c ! 0 \<noteq> []
                       then Inr (bowlers @ [\<lparr>bowl_name = c ! 0, bowl_ov = c ! 1, bowl_m = c ! 2,
                                             bowl_r = c ! 3, bowl_w = c ! 4, bowl_econ = c ! 5\<rparr>])
                       else Inr bowlers)))"

definition parse_bowling_table :: "node \<Rightarrow> py_error + bowling_entry list" where
  "parse_bowling_table table = fold_e bowling_row [] (table_rows table)"

subsection \<open>\<open>_parse_match_info\<close>\<close>

text \<open>
  \<open>soup.select(".section_title .title, .section_title h1, .section_title h2")\<close>: a
  tag of one of the three kinds below an element of class \<open>section_title\<close>.
\<close>

definition is_section_title_item :: "tag \<Rightarrow> bool" where
  "is_section_title_item t =
     ((has_class ''title'' (tnode t) \<or> is_tag ''h1'' (tnode t) \<or> is_tag ''h2'' (tnode t))
      \<and> list_ex (has_class ''section_title'') (ancestors t))"

fun info_rows :: "(string \<times> string) list \<Rightarrow> node list \<Rightarrow> (string \<times> string) list" where
  "info_rows acc [] = acc"
| "info_rows acc (tr # trs) =
     (let k = text_of (find_first (is_tag ''th'') tr);
          v = text_of (find_first (is_tag ''td'') tr)
      in info_rows (if k \<noteq> [] \<and> v \<noteq> [] then AList.update k v acc else acc) trs)"

definition parse_match_info :: "tag \<Rightarrow> py_error + (string \<times> string) list" where
  "parse_match_info soup =
     (case (case List.find (\<lambda>d. sublist ''match information'' (py_lower (text_of (Some (tnode d)))))
                   (filter is_section_title_item (tag_descendants soup)) of
              None \<Rightarrow> Inr None
            | Some title_div \<Rightarrow>
                (case find_parent title_div of
                   None \<Rightarrow> Inl AttributeError
                 | Some par \<Rightarrow>
                     (case find_next is_responsive_div par of
                        Some wrap \<Rightarrow> Inr (find_first (is_tag ''table'') wrap)
                      | None \<Rightarrow> Inr None))) of
        Inl e \<Rightarrow> Inl e
      | Inr table0 \<Rightarrow>
          (case (case table0 of
                   Some t \<Rightarrow> Some t
                 | None \<Rightarrow> find_first (is_tag ''table'') (tnode soup)) of
             None \<Rightarrow> Inr []
           | Some table \<Rightarrow> Inr (info_rows [] (find_all (is_tag ''tr'') table))))"

subsection \<open>\<open>_extract_title_and_teams\<close>\<close>

definition extract_title_and_teams :: "node \<Rightarrow> py_error + (string option \<times> string list)" where
  "extract_title_and_teams doc =
     (let ttl = or_none (text_of (find_first (is_tag ''title'') doc))
      in if truthy ttl \<and> sublist '' VS '' (the ttl)
         then (case py_index (py_split1 '' VS '' (the ttl)) 0 of
                 Inl e \<Rightarrow> Inl e
               | Inr l \<Rightarrow>
                   (case py_index (py_split1 '' VS '' (the ttl)) 1 of
                      Inl e \<Rightarrow> Inl e
                    | Inr right_part \<Rightarrow>
                        (case py_index (py_split1 '','' right_part) 0 of
                           Inl e \<Rightarrow> Inl e
                         | Inr r \<Rightarrow>
                             (if py_strip l \<noteq> [] \<and> py_strip r \<noteq> []
                              then Inr (ttl, [py_strip l, py_strip r])
                              else Inr (ttl, [])))))
         else Inr (ttl, []))"

subsection \<open>\<open>parse_scorecard_html\<close>\<close>

text \<open>The loop that sorts the tables by the text of their \<open>thead\<close>.\<close>

fun classify_tables :: "node list \<Rightarrow> node list \<Rightarrow> node list \<Rightarrow> node list \<times> node list" where
  "classify_tables bats bowls [] = (bats, bowls)"
| "classify_tables bats bowls (t # ts) =
     (case find_first (is_tag ''thead'') t of
        None \<Rightarrow> classify_tables bats bowls ts
      | Some th \<Rightarrow>
          (let head = py_lower (get_text '' '' th)
           in if sublist ''batting'' head then classify_tables (bats @ [t]) bowls ts
              else if sublist ''bowling'' head then classify_tables bats (bowls @ [t]) ts
              else classify_tables bats bowls ts))"

text \<open>The body of the loop over the enumerated batting tables.\<close>

definition innings_of ::
  "node list \<Rightarrow> string list \<Rightarrow> nat \<Rightarrow> node \<Rightarrow> py_error + innings" where
  "innings_of bowling_tables tms idx bt =
     (case parse_batting_table bt of
        Inl e \<Rightarrow> Inl e
      | Inr inn \<Rightarrow>
          (case (if idx < length bowling_tables
                 then (case py_index bowling_tables idx of
                         Inl e \<Rightarrow> Inl e
                       | Inr bowl \<Rightarrow>
                           (case parse_bowling_table bowl of
                              Inl e \<Rightarrow> Inl e
                            | Inr bs \<Rightarrow> Inr (inn\<lparr>bowling := Some bs\<rparr>)))
                 else Inr inn) of
             Inl e \<Rightarrow> Inl e
           | Inr inn1 \<Rightarrow>
               (if tms \<noteq> []
                then (case py_index tms (idx mod length tms) of
                        Inl e \<Rightarrow> Inl e
                      | Inr t \<Rightarrow> Inr (inn1\<lparr>team := Some t\<rparr>))
                else Inr inn1)))"

definition parse_scorecard_html :: "node \<Rightarrow> py_error + scorecard" where
  "parse_scorecard_html doc =
     (case extract_title_and_teams doc of
        Inl e \<Rightarrow> Inl e
      | Inr (ttl, tms) \<Rightarrow>
          (case classify_tables [] [] (find_all (is_tag ''table'') doc) of
             (batting_tables, bowling_tables) \<Rightarrow>
               (case sequence_e (map (\<lambda>(idx, bt). innings_of bowling_tables tms idx bt)
                                    (enumerate 0 batting_tables)) of
                  Inl e \<Rightarrow> Inl e
                | Inr inns \<Rightarrow>
                    (case parse_match_info (soup_tag doc) of
                       Inl e \<Rightarrow> Inl e
                     | Inr acc \<Rightarrow>
                         Inr \<lparr>ok = True, sc_title = ttl, sc_teams = tms, info = acc,
                              innings_list = inns,
                              batting_count = length batting_tables,
                              bowling_count = length bowling_tables\<rparr>))))"

text \<open>
  Sample rows of a batting table: an extras row with an empty cell before the number,
  an extras row without further cells, a row of a batsman and a "did not bat" row.
\<close>

definition extras_row :: node where
  "extras_row =
     Elem ''tr'' [] []
       [Elem ''td'' [] [] [Text ''Extras''], Elem ''td'' [] [] [], Elem ''td'' [] [] [Text ''5'']]"

definition bare_extras_row :: node where
  "bare_extras_row = Elem ''tr'' [] [] [Elem ''td'' [] [] [Text ''Extras'']]"

definition batsman_row :: node where
  "batsman_row =
     Elem ''tr'' [] []
       [Elem ''td'' [] [] [Elem ''b'' [] [] [Text ''Babar''], Elem ''small'' [] [] [Text ''b Starc'']],
        Elem ''td'' [] [] [Text ''50''], Elem ''td'' [] [] [Text ''40'']]"

definition did_not_bat_row :: node where
  "did_not_bat_row =
     Elem ''tr'' [] [] [Elem ''td'' [] [] [Text ''Did not bat: Smith''], Elem ''td'' [] [] [Text ''x'']]"

text \<open>A batting table with the extras row, the "did not bat" row and the row of a batsman.\<close>

definition sample_batting_table :: node where
  "sample_batting_table =
     Elem ''table'' [] [] [Elem ''tbody'' [] [] [extras_row, did_not_bat_row, batsman_row]]"

text \<open>
  A sample scorecard page: a title with two teams, a match information section and one
  batting table.
\<close>

definition sample_scorecard :: node where
  "sample_scorecard =
     Elem ''[document]'' [] []
       [Elem ''title'' [] [] [Text ''A VS B, T20''],
        Elem ''div'' [''section_title''] [] [Elem ''h2'' [] [] [Text ''Match Information'']],
        Elem ''div'' [''table-responsive''] []
          [Elem ''table'' [] []
             [Elem ''tr'' [] [] [Elem ''th'' [] [] [Text ''Toss''], Elem ''td'' [] [] [Text ''A'']]]],
        Elem ''table'' [] []
          [Elem ''thead'' [] [] [Text ''Batting''],
           Elem ''tbody'' [] []
             [Elem ''tr'' [] [] [Elem ''td'' [] [] [Text ''Babar''], Elem ''td'' [] [] [Text ''50'']],
              Elem ''tr'' [] [] [Elem ''td'' [] [] [Text ''Extras''], Elem ''td'' [] [] [Text ''5'']]]]]"

text \<open>A document without any element.\<close>

definition empty_document :: node where
  "empty_document = Elem ''[document]'' [] [] []"

section \<open>Facts about the string functions\<close>

lemma strip_where_sublist: "sublist (strip_where P s) s"
proof -
  have "sublist (dropWhile P (rev (dropWhile P s))) (rev (dropWhile P s))" by simp
  then have "sublist (strip_where P s) (dropWhile P s)"
    unfolding strip_where_def by (simp add: sublist_rev_left)
  moreover have "sublist (dropWhile P s) s" by simp
  ultimately show ?thesis using sublist_order.order_trans by blast
qed

lemma strip_where_set: "set (strip_where P s) \<subseteq> set s"
  using strip_where_sublist set_mono_sublist by blast

lemma strip_where_hd: "strip_where P s \<noteq> [] \<Longrightarrow> \<not> P (hd (strip_where P s))"
proof -
  assume ne: "strip_where P s \<noteq> []"
  let ?d = "dropWhile P s"
  have dne: "?d \<noteq> []"
  proof
    assume "?d = []"
    then have "strip_where P s = []" unfolding strip_where_def by (simp only: rev.simps dropWhile.simps)
    with ne show False by simp
  qed
  have r: "dropWhile P (rev ?d) \<noteq> []" using ne unfolding strip_where_def by simp
  have "hd (strip_where P s) = last (dropWhile P (rev ?d))"
    unfolding strip_where_def using r by (simp add: hd_rev)
  also have "\<dots> = last (rev ?d)"
    using r by (metis append_Nil2 dropWhile_eq_Nil_conv last_appendR takeWhile_dropWhile_id)
  also have "\<dots> = hd ?d" using dne by (simp add: last_rev)
  finally show ?thesis using dne hd_dropWhile by metis
qed

lemma strip_where_last: "strip_where P s \<noteq> [] \<Longrightarrow> \<not> P (last (strip_where P s))"
proof -
  assume ne: "strip_where P s \<noteq> []"
  have r: "dropWhile P (rev (dropWhile P s)) \<noteq> []" using ne unfolding strip_where_def by simp
  have "last (strip_where P s) = hd (dropWhile P (rev (dropWhile P s)))"
    unfolding strip_where_def using r by (simp add: last_rev)
  then show ?thesis using r hd_dropWhile by metis
qed

lemma strip_where_id:
  "s \<noteq> [] \<Longrightarrow> \<not> P (hd s) \<Longrightarrow> \<not> P (last s) \<Longrightarrow> strip_where P s = s"
proof -
  assume a: "s \<noteq> []" "\<not> P (hd s)" "\<not> P (last s)"
  have 1: "dropWhile P s = s" using a by (cases s) auto
  have "rev s \<noteq> []" "\<not> P (hd (rev s))" using a by (auto simp: hd_rev)
  then have 2: "dropWhile P (rev s) = rev s" by (cases "rev s") auto
  show ?thesis unfolding strip_where_def by (simp add: 1 2)
qed


lemma sub_runs_set:
  "set (sub_runs P rep s) \<subseteq> {c \<in> set s. \<not> P c} \<union> set rep"
proof (induction P rep s rule: sub_runs.induct)
  case (1 P rep)
  then show ?case by simp
next
  case (2 P rep c cs)
  show ?case
  proof (cases "P c")
    case True
    have "set (dropWhile P cs) \<subseteq> set cs" by (meson set_dropWhileD subsetI)
    with True 2 show ?thesis by auto
  next
    case False
    with 2 show ?thesis by auto
  qed
qed

lemma sub_runs_cong:
  "(\<And>c. c \<in> set s \<Longrightarrow> P c = Q c) \<Longrightarrow> sub_runs P rep s = sub_runs Q rep s"
proof (induction P rep s rule: sub_runs.induct)
  case (1 P rep)
  then show ?case by simp
next
  case (2 P rep c cs)
  have pq: "P c = Q c" using 2(3) by simp
  have dw: "dropWhile P cs = dropWhile Q cs"
    by (rule dropWhile_cong) (auto simp: 2(3))
  show ?case
  proof (cases "P c")
    case True
    have "\<And>d. d \<in> set (dropWhile P cs) \<Longrightarrow> P d = Q d"
      using 2(3) by (meson list.set_intros(2) set_dropWhileD)
    with True 2(1) have "sub_runs P rep (dropWhile P cs) = sub_runs Q rep (dropWhile P cs)" by blast
    with True pq dw show ?thesis by simp
  next
    case False
    with 2(2) 2(3) have "sub_runs P rep cs = sub_runs Q rep cs" by simp
    with False pq show ?thesis by simp
  qed
qed

lemma sub_runs_hyphen_no_double:
  "\<not> sublist ''--'' (sub_runs (\<lambda>c. c = CHR ''-'') ''-'' s)"
proof (induction "\<lambda>c. c = CHR ''-''" "''-''" s rule: sub_runs.induct)
  case 1
  then show ?case by simp
next
  case (2 c cs)
  let ?P = "\<lambda>c. c = CHR ''-''"
  show ?case
  proof (cases "c = CHR ''-''")
    case True
    let ?r = "dropWhile ?P cs"
    have ih: "\<not> sublist ''--'' (sub_runs ?P ''-'' ?r)" using 2(1) True by simp
    have "\<not> prefix ''-'' (sub_runs ?P ''-'' ?r)"
    proof (cases ?r)
      case Nil
      then have "sub_runs ?P ''-'' ?r = []" by (simp only: sub_runs.simps)
      then show ?thesis by (simp only: prefix_Nil) simp
    next
      case (Cons d ds)
      then have "d \<noteq> CHR ''-''" using hd_dropWhile[of ?P cs] by auto
      with Cons show ?thesis by simp
    qed
    then have "\<not> prefix ''--'' (CHR ''-'' # sub_runs ?P ''-'' ?r)" by simp
    with ih True show ?thesis by (simp add: sublist_Cons_right)
  next
    case False
    with 2(2) show ?thesis by (simp add: sublist_Cons_right)
  qed
qed

lemma sub_runs_hyphen_id:
  "\<not> sublist ''--'' s \<Longrightarrow> sub_runs (\<lambda>c. c = CHR ''-'') ''-'' s = s"
proof (induction s)
  case Nil
  then show ?case by simp
next
  case (Cons c cs)
  then have tl: "\<not> sublist ''--'' cs" and np: "\<not> prefix ''--'' (c # cs)"
    by (auto simp: sublist_Cons_right)
  show ?case
  proof (cases "c = CHR ''-''")
    case True
    with np have "dropWhile (\<lambda>c. c = CHR ''-'') cs = cs" by (cases cs) auto
    with True Cons.IH tl show ?thesis by simp
  next
    case False
    with Cons.IH tl show ?thesis by simp
  qed
qed



section \<open>Facts about the two passes\<close>




lemma py_join_nonempty: "x \<noteq> [] \<Longrightarrow> py_join sep (x # xs) \<noteq> []"
  by (cases xs) simp_all


lemma collect_set:
  "r \<in> set (fst (collect f w xs)) \<Longrightarrow> \<exists>w1 x. x \<in> set xs \<and> fst (f w1 x) = Some r"
proof (induction xs arbitrary: w)
  case Nil
  then show ?case by simp
next
  case (Cons x xs)
  obtain r0 w1 where f: "f w x = (r0, w1)" by (cases "f w x")
  obtain rs w2 where c: "collect f w1 xs = (rs, w2)" by (cases "collect f w1 xs")
  from Cons.prems f c have "r0 = Some r \<or> r \<in> set rs" by (auto split: option.splits)
  then show ?case
  proof
    assume "r0 = Some r"
    with f have "fst (f w x) = Some r" by simp
    then show ?thesis by (metis list.set_intros(1))
  next
    assume "r \<in> set rs"
    with c have "r \<in> set (fst (collect f w1 xs))" by simp
    from Cons.IH[OF this] show ?thesis by (metis list.set_intros(2))
  qed
qed


lemma card_team_loop:
  "foldl (card_team net) (tms, imgs, w) tns = (tms1, imgs1, w1) \<Longrightarrow>
     tms1 = tms @ filter (\<lambda>s. s \<noteq> []) (map team_name_text tns) \<and>
     length imgs1 = length imgs + length tns"
proof (induction tns arbitrary: tms imgs w)
  case Nil
  then show ?case by simp
next
  case (Cons tn tns)
  obtain a b c where s: "card_team net (tms, imgs, w) tn = (a, b, c)"
    by (cases "card_team net (tms, imgs, w) tn")
  then have a: "a = (if team_name_text tn \<noteq> [] then tms @ [team_name_text tn] else tms)"
    and b: "length b = Suc (length imgs)"
    by (auto simp: card_team_def Let_def split: prod.splits)
  from Cons.prems s have "foldl (card_team net) (a, b, c) tns = (tms1, imgs1, w1)" by simp
  from Cons.IH[OF this] a b show ?case by auto
qed

lemma table_team_loop:
  "foldl (table_team net) (names, imgs, lnk, w) cells = (names1, imgs1, lnk1, w1) \<Longrightarrow>
     names1 = names @ filter (\<lambda>s. s \<noteq> []) (map link_name_text cells) \<and>
     length imgs1 = length imgs + length cells"
proof (induction cells arbitrary: names imgs lnk w)
  case Nil
  then show ?case by simp
next
  case (Cons a cells)
  obtain n2 i2 l2 w2 where s: "table_team net (names, imgs, lnk, w) a = (n2, i2, l2, w2)"
    by (cases "table_team net (names, imgs, lnk, w) a")
  then have a: "n2 = (if link_name_text a \<noteq> [] then names @ [link_name_text a] else names)"
    and b: "length i2 = Suc (length imgs)"
    by (auto simp: table_team_def Let_def split: prod.splits if_splits)
  from Cons.prems s have "foldl (table_team net) (n2, i2, l2, w2) cells = (names1, imgs1, lnk1, w1)"
    by simp
  from Cons.IH[OF this] a b show ?case by auto
qed

text \<open>What a card and a row yield, field by field.\<close>

lemma card_record_fields:
  assumes "fst (card_record net w mu) = Some r"
  shows "title r = fst (card_title_status mu) \<and> status r = snd (card_title_status mu) \<and>
     time_or_venue r = card_time_or_venue mu \<and>
     keep_record (title r) (teams r) (time_or_venue r) \<and>
     (let names = filter (\<lambda>s. s \<noteq> []) (map team_name_text (find_all (has_class ''teamname'') mu));
          n = length (find_all (has_class ''teamname'') mu)
      in teams r = (if 2 < length names then take 2 names else names) \<and>
         length (team_images r) = (if 2 < length names then min n 2 else n))"
proof -
  obtain ttl st where t: "card_title_status mu = (ttl, st)" by (cases "card_title_status mu")
  obtain tms0 imgs0 w1 where
    l: "foldl (card_team net) ([], [], w) (find_all (has_class ''teamname'') mu) = (tms0, imgs0, w1)"
    by (cases "foldl (card_team net) ([], [], w) (find_all (has_class ''teamname'') mu)")
  from card_team_loop[OF l]
  have n: "tms0 = filter (\<lambda>s. s \<noteq> []) (map team_name_text (find_all (has_class ''teamname'') mu))"
    and i: "length imgs0 = length (find_all (has_class ''teamname'') mu)" by simp_all
  from assms t l have
    "r = \<lparr>title = ttl, teams = (if 2 < length tms0 then take 2 tms0 else tms0),
          team_images = (if 2 < length tms0 then take 2 imgs0 else imgs0),
          status = st, time_or_venue = card_time_or_venue mu,
          link = fst (norm_src w1 (case find_first has_href mu of
                              Some link_tag \<Rightarrow> attr link_tag ''href''
                            | None \<Rightarrow> None))\<rparr> \<and>
     keep_record ttl (if 2 < length tms0 then take 2 tms0 else tms0) (card_time_or_venue mu)"
    by (auto simp: card_record_def Let_def split: prod.splits if_splits)
  with t n i show ?thesis by (auto simp: Let_def)
qed


lemma table_row_fields:
  assumes "fst (table_row net w tr) = Some r"
  shows "\<exists>td0 tds_rest. find_all (is_tag ''td'') tr = td0 # tds_rest \<and>
     time_or_venue r = row_date_time (td0 # tds_rest) \<and>
     status r = row_status (time_or_venue r) \<and>
     title r = row_title (teams r) (row_match_type (td0 # tds_rest)) \<and>
     keep_record (title r) (teams r) (time_or_venue r) \<and>
     teams r = filter (\<lambda>s. s \<noteq> []) (map link_name_text
        (take 2 (find_all (\<lambda>n. is_tag ''a'' n \<and> has_class ''team_name'' n) td0))) \<and>
     length (team_images r) =
        length (take 2 (find_all (\<lambda>n. is_tag ''a'' n \<and> has_class ''team_name'' n) td0))"
proof (cases "find_all (is_tag ''td'') tr")
  case Nil
  with assms show ?thesis by (simp add: table_row_def)
next
  case (Cons td0 tds_rest)
  let ?cells = "take 2 (find_all (\<lambda>n. is_tag ''a'' n \<and> has_class ''team_name'' n) td0)"
  obtain names imgs lnk0 w1 where
    l: "foldl (table_team net) ([], [], None, w) ?cells = (names, imgs, lnk0, w1)"
    by (cases "foldl (table_team net) ([], [], None, w) ?cells") auto
  from table_team_loop[OF l]
  have n: "names = filter (\<lambda>s. s \<noteq> []) (map link_name_text ?cells)"
    and i: "length imgs = length ?cells" by simp_all
  from assms Cons l have
    "title r = row_title names (row_match_type (td0 # tds_rest)) \<and> teams r = names \<and>
     team_images r = imgs \<and> status r = row_status (row_date_time (td0 # tds_rest)) \<and>
     time_or_venue r = row_date_time (td0 # tds_rest) \<and>
     keep_record (row_title names (row_match_type (td0 # tds_rest))) names
       (row_date_time (td0 # tds_rest))"
    by (auto simp: table_row_def Let_def split: prod.splits if_splits option.splits)
  with Cons n i show ?thesis by auto
qed


section \<open>Facts about the merge loop and the whole extractor\<close>

lemma merge_loop_acc: "merge_loop seen merged its = merged @ merge_loop seen [] its"
proof (induction its arbitrary: seen merged)
  case Nil
  then show ?case by simp
next
  case (Cons it its)
  show ?case
  proof (cases "key_for it \<in> seen")
    case True
    with Cons[of seen merged] show ?thesis by simp
  next
    case False
    with Cons[of "insert (key_for it) seen" "merged @ [it]"]
      Cons[of "insert (key_for it) seen" "[it]"]
    show ?thesis by simp
  qed
qed

lemma merge_loop_Cons:
  "merge_loop seen [] (it # its) =
     (if key_for it \<in> seen then merge_loop seen [] its
      else it # merge_loop (insert (key_for it) seen) [] its)"
  using merge_loop_acc[of "insert (key_for it) seen" "[it]" its] by simp

lemma merge_loop_keys: "key_for ` set (merge_loop seen [] its) = key_for ` set its - seen"
proof (induction its arbitrary: seen)
  case Nil
  then show ?case by simp
next
  case (Cons it its)
  show ?case unfolding merge_loop_Cons using Cons[of seen] Cons[of "insert (key_for it) seen"]
    by auto
qed

lemma merge_loop_distinct: "distinct (map key_for (merge_loop seen [] its))"
proof (induction its arbitrary: seen)
  case Nil
  then show ?case by simp
next
  case (Cons it its)
  have "key_for it \<notin> key_for ` set (merge_loop (insert (key_for it) seen) [] its)"
    unfolding merge_loop_keys by simp
  then show ?case unfolding merge_loop_Cons using Cons[of seen] Cons[of "insert (key_for it) seen"]
    by simp
qed

lemma merge_loop_subseq: "subseq (merge_loop seen [] its) its"
proof (induction its arbitrary: seen)
  case Nil
  then show ?case by simp
next
  case (Cons it its)
  show ?case unfolding merge_loop_Cons using Cons[of seen] Cons[of "insert (key_for it) seen"]
    by auto
qed

lemma merge_loop_first:
  "x \<in> set (merge_loop seen [] its) \<Longrightarrow> List.find (\<lambda>y. key_for y = key_for x) its = Some x"
proof (induction its arbitrary: seen)
  case Nil
  then show ?case by simp
next
  case (Cons it its)
  from Cons.prems have nk: "key_for x \<notin> seen"
    using merge_loop_keys[of seen "it # its"] by blast
  show ?case
  proof (cases "key_for it \<in> seen")
    case True
    have "x \<in> set (merge_loop seen [] its)"
      using Cons.prems True unfolding merge_loop_Cons by simp
    then have "List.find (\<lambda>y. key_for y = key_for x) its = Some x" by (rule Cons.IH)
    moreover from True nk have "key_for it \<noteq> key_for x" by auto
    ultimately show ?thesis by simp
  next
    case False
    have "x = it \<or> x \<in> set (merge_loop (insert (key_for it) seen) [] its)"
      using Cons.prems False unfolding merge_loop_Cons by simp
    then show ?thesis
    proof
      assume "x = it"
      then show ?thesis by simp
    next
      assume m: "x \<in> set (merge_loop (insert (key_for it) seen) [] its)"
      then have "List.find (\<lambda>y. key_for y = key_for x) its = Some x" by (rule Cons.IH)
      moreover from m have "key_for x \<noteq> key_for it"
        using merge_loop_keys[of "insert (key_for it) seen" its] by blast
      ultimately show ?thesis by simp
    qed
  qed
qed


lemma find_append_first:
  "List.find P (xs @ ys) = Some x \<Longrightarrow> \<exists>c \<in> set xs. P c \<Longrightarrow> List.find P xs = Some x"
  by (induction xs) (auto split: if_splits)

lemma table_pass_record:
  assumes "r \<in> set (fst (parse_schedule_table net w root))"
  shows "\<exists>w1 x. fst (table_row net w1 x) = Some r"
proof (cases "locate_schedule_table root")
  case None
  with assms show ?thesis by (simp add: parse_schedule_table_def)
next
  case (Some table)
  with assms have "r \<in> set (fst (collect (table_row net) w (find_all (is_tag ''tr'') table)))"
    by (simp add: parse_schedule_table_def)
  from collect_set[OF this] show ?thesis by blast
qed


lemma parse_schedules_html_merge:
  "fst (parse_schedules_html net w doc) =
     merge_items (fst (parse_match_updates net w (tnode (find_content_root doc))))
       (fst (parse_schedule_table net
              (snd (parse_match_updates net w (tnode (find_content_root doc))))
              (find_content_root doc)))"
  by (simp add: parse_schedules_html_def Let_def split: prod.splits)






section \<open>The status of a table row\<close>

lemma ci_prefix_iff:
  "ci_prefix p s \<longleftrightarrow> (\<exists>m post. s = m @ post \<and> py_lower m = p)"
proof
  assume "ci_prefix p s"
  then have pre: "prefix p (py_lower (take (length p) s))" by (simp add: ci_prefix_def)
  then obtain zs where z: "py_lower (take (length p) s) = p @ zs" by (auto simp: prefix_def)
  have "length (py_lower (take (length p) s)) \<le> length p" by (simp add: py_lower_def)
  with z have "zs = []" by simp
  with z have "py_lower (take (length p) s) = p" by simp
  moreover have "s = take (length p) s @ drop (length p) s" by simp
  ultimately show "\<exists>m post. s = m @ post \<and> py_lower m = p" by blast
next
  assume "\<exists>m post. s = m @ post \<and> py_lower m = p"
  then obtain m post where s: "s = m @ post" and m: "py_lower m = p" by blast
  then have "length m = length p" by (auto simp: py_lower_def)
  with s have "take (length p) s = m" by simp
  with m show "ci_prefix p s" by (simp add: ci_prefix_def)
qed

lemma word_boundary_after_iff: "word_boundary_after r = (r = [] \<or> \<not> is_word_char (hd r))"
  by (cases r) (simp_all add: word_boundary_after_def)

lemma marker_here_generic:
  assumes len: "\<And>m. length (f m) = length m" and n: "length X = n"
  shows "((\<exists>m post. s = m @ post \<and> f m = X) \<and> W \<and> Q (drop n s)
          \<or> (\<exists>m post. s = m @ post \<and> f m = Y) \<or> (\<exists>m post. s = m @ post \<and> f m = Z))
       = (\<exists>m post. s = m @ post \<and> (f m = Y \<or> f m = Z \<or> (f m = X \<and> W \<and> Q post)))"
proof -
  have a: "\<And>m post. s = m @ post \<Longrightarrow> f m = X \<Longrightarrow> drop n s = post"
  proof -
    fix m post assume "s = m @ post" "f m = X"
    with len[of m] n have "length m = n" by simp
    with \<open>s = m @ post\<close> show "drop n s = post" by simp
  qed
  show ?thesis
  proof
    assume "(\<exists>m post. s = m @ post \<and> f m = X) \<and> W \<and> Q (drop n s)
          \<or> (\<exists>m post. s = m @ post \<and> f m = Y) \<or> (\<exists>m post. s = m @ post \<and> f m = Z)"
    then show "\<exists>m post. s = m @ post \<and> (f m = Y \<or> f m = Z \<or> (f m = X \<and> W \<and> Q post))"
      using a by metis
  next
    assume "\<exists>m post. s = m @ post \<and> (f m = Y \<or> f m = Z \<or> (f m = X \<and> W \<and> Q post))"
    then show "(\<exists>m post. s = m @ post \<and> f m = X) \<and> W \<and> Q (drop n s)
          \<or> (\<exists>m post. s = m @ post \<and> f m = Y) \<or> (\<exists>m post. s = m @ post \<and> f m = Z)"
      using a by metis
  qed
qed

lemma time_marker_here_iff:
  "time_marker_here prev s \<longleftrightarrow>
     (\<exists>m post. s = m @ post \<and>
        (py_lower m = ''am'' \<or> py_lower m = ''pm'' \<or>
         (py_lower m = ''pst'' \<and> word_boundary_before prev \<and> (post = [] \<or> \<not> is_word_char (hd post)))))"
proof -
  have len: "\<And>m. length (py_lower m) = length m" by (simp add: py_lower_def)
  have n: "length ''pst'' = 3" by simp
  have g: "((\<exists>m post. s = m @ post \<and> py_lower m = ''pst'') \<and> word_boundary_before prev \<and>
              (drop 3 s = [] \<or> \<not> is_word_char (hd (drop 3 s)))
          \<or> (\<exists>m post. s = m @ post \<and> py_lower m = ''am'') \<or> (\<exists>m post. s = m @ post \<and> py_lower m = ''pm''))
       = (\<exists>m post. s = m @ post \<and> (py_lower m = ''am'' \<or> py_lower m = ''pm'' \<or>
            (py_lower m = ''pst'' \<and> word_boundary_before prev \<and> (post = [] \<or> \<not> is_word_char (hd post)))))"
    by (rule marker_here_generic[where f = py_lower and X = "''pst''" and n = 3
          and Q = "\<lambda>r. r = [] \<or> \<not> is_word_char (hd r)", OF len n])
  show ?thesis
    unfolding time_marker_here_def ci_prefix_iff word_boundary_after_iff by (rule g)
qed

text \<open>A match of the expression that starts after \<open>pre\<close>, reads \<open>m\<close> and leaves \<open>post\<close>.\<close>

definition marker_split :: "char option \<Rightarrow> string \<Rightarrow> string \<Rightarrow> string \<Rightarrow> bool" where
  "marker_split prev pre m post \<longleftrightarrow>
     (py_lower m = ''am'' \<or> py_lower m = ''pm'' \<or>
      (py_lower m = ''pst'' \<and>
       (if pre = [] then word_boundary_before prev else \<not> is_word_char (last pre)) \<and>
       (post = [] \<or> \<not> is_word_char (hd post))))"

lemma marker_split_here:
  "time_marker_here prev s \<longleftrightarrow> (\<exists>m post. s = m @ post \<and> marker_split prev [] m post)"
  unfolding time_marker_here_iff marker_split_def by simp

lemma marker_split_Cons:
  "marker_split (Some c) pre m post \<longleftrightarrow> marker_split prev (c # pre) m post"
  by (simp add: marker_split_def word_boundary_before_def)

lemma marker_split_nonempty: "marker_split prev pre m post \<Longrightarrow> m \<noteq> []"
  by (auto simp: marker_split_def py_lower_def)

lemma time_marker_from_split:
  "time_marker_from prev s \<Longrightarrow> \<exists>pre m post. s = pre @ m @ post \<and> marker_split prev pre m post"
proof (induction s arbitrary: prev)
  case Nil
  then show ?case by simp
next
  case (Cons c cs)
  then have "time_marker_here prev (c # cs) \<or> time_marker_from (Some c) cs" by simp
  then show ?case
  proof
    assume "time_marker_here prev (c # cs)"
    then obtain m post where "c # cs = [] @ m @ post" "marker_split prev [] m post"
      unfolding marker_split_here by auto
    then show ?thesis by blast
  next
    assume "time_marker_from (Some c) cs"
    from Cons.IH[OF this] obtain pre m post
      where "cs = pre @ m @ post" "marker_split (Some c) pre m post" by blast
    then have "c # cs = (c # pre) @ m @ post" "marker_split prev (c # pre) m post"
      using marker_split_Cons by simp_all
    then show ?thesis by blast
  qed
qed

lemma split_time_marker_from:
  "marker_split prev pre m post \<Longrightarrow> time_marker_from prev (pre @ m @ post)"
proof (induction pre arbitrary: prev)
  case Nil
  then have "m \<noteq> []" by (rule marker_split_nonempty)
  then obtain c cs where e: "m @ post = c # cs" by (cases m) auto
  from Nil have "time_marker_here prev (m @ post)" unfolding marker_split_here by blast
  with e show ?case by simp
next
  case (Cons c pre)
  then have "marker_split (Some c) pre m post" using marker_split_Cons by blast
  then have "time_marker_from (Some c) (pre @ m @ post)" by (rule Cons.IH)
  then show ?case by simp
qed

lemma marker_split_None:
  "marker_split None pre m post \<longleftrightarrow>
     (py_lower m = ''am'' \<or> py_lower m = ''pm'' \<or>
      (py_lower m = ''pst'' \<and> (pre = [] \<or> \<not> is_word_char (last pre)) \<and>
       (post = [] \<or> \<not> is_word_char (hd post))))"
  by (cases "pre = []") (simp_all add: marker_split_def word_boundary_before_def)

lemma time_marker_iff: "time_marker d \<longleftrightarrow> has_time_marker d"
proof -
  have h: "has_time_marker d \<longleftrightarrow> (\<exists>pre m post. d = pre @ m @ post \<and> marker_split None pre m post)"
    unfolding has_time_marker_def marker_split_None ..
  show ?thesis unfolding h time_marker_def
  proof
    assume "time_marker_from None d"
    then show "\<exists>pre m post. d = pre @ m @ post \<and> marker_split None pre m post"
      by (rule time_marker_from_split)
  next
    assume "\<exists>pre m post. d = pre @ m @ post \<and> marker_split None pre m post"
    then obtain pre m post where "d = pre @ m @ post" "marker_split None pre m post" by blast
    then show "time_marker_from None d" using split_time_marker_from by simp
  qed
qed

text \<open>
  Claim C1, with the marker that the code tests. In the table pass a record has the
  status \<open>Upcoming\<close> exactly when its date and time field is present and holds
  \<open>am\<close> or \<open>pm\<close> in any letter case anywhere in the text, also inside a word, or
  \<open>pst\<close> in any letter case with no letter, digit or underscore directly before or
  after it. Every other record of the pass has no status. \<open>PST\<close> is the only zone that
  counts: a field with another zone and no \<open>am\<close> or \<open>pm\<close> gives no status, and a
  field without a time whose letters hold \<open>am\<close> or \<open>pm\<close> gives \<open>Upcoming\<close>. The
  field of a row is the text of its third cell, present when the row has three cells
  and that text is not empty.
\<close>

theorem table_status_upcoming:
  "(\<forall>r \<in> set (fst (parse_schedule_table net w root)).
      (status r = Some ''Upcoming'' \<longleftrightarrow> (\<exists>d. time_or_venue r = Some d \<and> has_time_marker d)) \<and>
      ((\<forall>d. time_or_venue r = Some d \<longrightarrow> \<not> has_time_marker d) \<longrightarrow> status r = None)) \<and>
   (\<forall>r. fst (table_row net w tr) = Some r \<longrightarrow>
      time_or_venue r = row_date_time (find_all (is_tag ''td'') tr) \<and>
      (status r = Some ''Upcoming'' \<longleftrightarrow> (\<exists>d. time_or_venue r = Some d \<and> has_time_marker d)) \<and>
      ((\<forall>d. time_or_venue r = Some d \<longrightarrow> \<not> has_time_marker d) \<longrightarrow> status r = None))"
proof -
  have row: "time_or_venue r = row_date_time (find_all (is_tag ''td'') tr) \<and>
      (status r = Some ''Upcoming'' \<longleftrightarrow> (\<exists>d. time_or_venue r = Some d \<and> has_time_marker d)) \<and>
      ((\<forall>d. time_or_venue r = Some d \<longrightarrow> \<not> has_time_marker d) \<longrightarrow> status r = None)"
    if "fst (table_row net w tr) = Some r" for net w tr r
  proof -
    from table_row_fields[OF that] obtain td0 tds_rest where
      t: "find_all (is_tag ''td'') tr = td0 # tds_rest"
      "time_or_venue r = row_date_time (td0 # tds_rest)"
      "status r = row_status (time_or_venue r)" by blast
    have s: "status r = (if truthy (time_or_venue r) \<and> has_time_marker (the (time_or_venue r))
                 then Some ''Upcoming'' else None)"
      unfolding t(3) row_status_def time_marker_iff ..
    have p: "time_or_venue r = None \<or> (\<exists>d. time_or_venue r = Some d \<and> d \<noteq> [])"
      unfolding t(2) by (auto simp: row_date_time_def or_none_def)
    have gen: "(st = Some ''Upcoming'' \<longleftrightarrow> (\<exists>d. tv = Some d \<and> has_time_marker d)) \<and>
        ((\<forall>d. tv = Some d \<longrightarrow> \<not> has_time_marker d) \<longrightarrow> st = None)"
      if "st = (if truthy tv \<and> has_time_marker (the tv) then Some ''Upcoming'' else None)"
        and "tv = None \<or> (\<exists>d. tv = Some d \<and> d \<noteq> [])"
      for st :: "string option" and tv :: "string option"
      using that by (auto simp: truthy_def)
    have tv: "time_or_venue r = row_date_time (find_all (is_tag ''td'') tr)"
      using t(1,2) by simp
    from gen[OF s p] tv show ?thesis by blast
  qed
  have pass: "\<forall>r \<in> set (fst (parse_schedule_table net w root)).
      (status r = Some ''Upcoming'' \<longleftrightarrow> (\<exists>d. time_or_venue r = Some d \<and> has_time_marker d)) \<and>
      ((\<forall>d. time_or_venue r = Some d \<longrightarrow> \<not> has_time_marker d) \<longrightarrow> status r = None)"
  proof
    fix r assume "r \<in> set (fst (parse_schedule_table net w root))"
    from table_pass_record[OF this] obtain w1 x where "fst (table_row net w1 x) = Some r" by blast
    from row[OF this]
    show "(status r = Some ''Upcoming'' \<longleftrightarrow> (\<exists>d. time_or_venue r = Some d \<and> has_time_marker d)) \<and>
      ((\<forall>d. time_or_venue r = Some d \<longrightarrow> \<not> has_time_marker d) \<longrightarrow> status r = None)"
      by blast
  qed
  from pass row[of net w tr] show ?thesis by blast
qed

text \<open>
  The sample table: the row with \<open>3 PM\<close> is upcoming, the row with the date only
  has no status.
\<close>

theorem table_status_upcoming_witness:
  "fst (parse_schedule_table no_network sample_world (soup_tag sample_page)) =
     [\<lparr>title = ''C, T20'', teams = [''C''], team_images = [None], status = Some ''Upcoming'',
       time_or_venue = Some ''3 PM'', link = None\<rparr>,
      \<lparr>title = [], teams = [], team_images = [], status = None,
       time_or_venue = Some ''12 May'', link = None\<rparr>] \<and>
   has_time_marker ''3 PM'' \<and> \<not> has_time_marker ''12 May''"
proof -
  let ?r1 = "\<lparr>title = ''C, T20'', teams = [''C''], team_images = [None], status = Some ''Upcoming'',
       time_or_venue = Some ''3 PM'', link = None\<rparr>"
  let ?r2 = "\<lparr>title = [], teams = [], team_images = [], status = None,
       time_or_venue = Some ''12 May'', link = None\<rparr>"
  have e: "fst (parse_schedule_table no_network sample_world (soup_tag sample_page)) = [?r1, ?r2]"
    by code_simp
  note t = table_status_upcoming[of no_network sample_world "soup_tag sample_page",
      THEN conjunct1, unfolded e]
  have 1: "status ?r1 = Some ''Upcoming'' \<longleftrightarrow> (\<exists>d. time_or_venue ?r1 = Some d \<and> has_time_marker d)"
    using t by (simp only: list.set ball_simps insert_iff)
  have 2: "status ?r2 = Some ''Upcoming'' \<longleftrightarrow> (\<exists>d. time_or_venue ?r2 = Some d \<and> has_time_marker d)"
    using t by (simp only: list.set ball_simps insert_iff)
  from 1 have a: "has_time_marker ''3 PM''" by simp
  from 2 have b: "\<not> has_time_marker ''12 May''" by simp
  from e a b show ?thesis by (intro conjI)
qed


text \<open>
  The time \<open>15:00 GMT\<close> has a zone and gives no status; the venue \<open>Southampton\<close>
  has no time and gives the status \<open>Upcoming\<close>, for the letters \<open>am\<close> in it.
\<close>

theorem table_status_upcoming_counterexample:
  "fst (table_row no_network sample_world gmt_row) =
     Some \<lparr>title = ''T20'', teams = [], team_images = [], status = None,
            time_or_venue = Some ''15:00 GMT'', link = None\<rparr> \<and>
   fst (table_row no_network sample_world venue_row) =
     Some \<lparr>title = ''T20'', teams = [], team_images = [], status = Some ''Upcoming'',
            time_or_venue = Some ''Southampton'', link = None\<rparr>"
proof -
  have a: "fst (table_row no_network sample_world gmt_row) =
     Some \<lparr>title = ''T20'', teams = [], team_images = [], status = None,
            time_or_venue = Some ''15:00 GMT'', link = None\<rparr>"
    by code_simp
  have b: "fst (table_row no_network sample_world venue_row) =
     Some \<lparr>title = ''T20'', teams = [], team_images = [], status = Some ''Upcoming'',
            time_or_venue = Some ''Southampton'', link = None\<rparr>"
    by code_simp
  from a b show ?thesis by (intro conjI)
qed

section \<open>The title of a card without its status\<close>

lemma deletes_Cons:
  assumes "\<not> prefix old (c # s)" "old \<noteq> []" "deletes old s res"
  shows "deletes old (c # s) (c # res)"
  using assms(3)
proof (cases rule: deletes.cases)
  case no_occurrence
  with assms(1) have "\<not> sublist old (c # s)" by (simp add: sublist_Cons_right)
  with no_occurrence show ?thesis by (simp add: deletes.no_occurrence)
next
  case (first_occurrence pre rest res0)
  have b: "butlast ((c # pre) @ old) = c # butlast (pre @ old)" using assms(2) by simp
  have "\<not> prefix old (c # butlast (pre @ old))"
  proof
    assume p: "prefix old (c # butlast (pre @ old))"
    have "prefix (butlast (pre @ old)) (pre @ old @ rest)"
      by (metis append.assoc butlast_append prefixI prefix_order.trans prefixeq_butlast)
    then have "prefix (c # butlast (pre @ old)) (c # s)" using first_occurrence(1) by simp
    with p have "prefix old (c # s)" by (rule prefix_order.trans)
    with assms(1) show False by simp
  qed
  with first_occurrence(3) have "\<not> sublist old (butlast ((c # pre) @ old))"
    unfolding b by (simp add: sublist_Cons_right)
  from deletes.first_occurrence[OF this first_occurrence(4)] first_occurrence(1,2)
  show ?thesis by simp
qed

lemma replace_from_deletes: "old \<noteq> [] \<Longrightarrow> deletes old s (replace_from old [] s)"
proof (induction old "[] :: string" s rule: replace_from.induct)
  case (1 old)
  then show ?case by (simp add: deletes.no_occurrence)
next
  case (2 old c cs)
  show ?case
  proof (cases "prefix old (c # cs)")
    case True
    then obtain rest where r: "c # cs = old @ rest" by (auto simp: prefix_def)
    from 2(3) obtain x xs where o: "old = x # xs" by (cases old) auto
    with r have d: "drop (length old - 1) cs = rest" by auto
    from True 2 d have ih: "deletes old rest (replace_from old [] rest)" by simp
    have "\<not> sublist old (butlast ([] @ old))"
      using 2(3) sublist_length_le[of old "butlast old"] by (auto simp: o)
    from deletes.first_occurrence[OF this ih]
    have "deletes old (old @ rest) (replace_from old [] rest)" by simp
    moreover have "replace_from old [] (c # cs) = replace_from old [] rest"
      using True d by simp
    ultimately show ?thesis by (simp only: r[symmetric])
  next
    case False
    with 2 have "deletes old cs (replace_from old [] cs)" by simp
    with False 2(3) have "deletes old (c # cs) (c # replace_from old [] cs)"
      by (intro deletes_Cons)
    with False show ?thesis by simp
  qed
qed

lemma py_replace_empty_old: "py_replace [] [] s = s"
  by (induction s) (simp_all add: py_replace_def)

text \<open>
  Claim C10. When the first \<open>p\<close> of a card holds a \<open>small\<close>, the status of the record
  is the text of that \<open>small\<close> and the title is the text of the whole \<open>p\<close> in which
  \<open>str.replace\<close> has replaced the status text by nothing, stripped. That replacement
  deletes every occurrence of the status text found in one pass from left to right,
  wherever it stands in the title, not only the one that comes from the \<open>small\<close>
  (an empty status text deletes nothing).
\<close>

theorem card_title_without_status:
  assumes "find_first (is_tag ''p'') mu = Some p"
    and "find_first (is_tag ''small'') p = Some sm"
    and "fst (card_record net w mu) = Some r"
  shows "status r = Some (get_text [] sm) \<and>
     title r = py_strip (py_replace (get_text [] sm) [] (get_text '' '' p)) \<and>
     (if get_text [] sm = [] then py_replace (get_text [] sm) [] (get_text '' '' p) = get_text '' '' p
      else deletes (get_text [] sm) (get_text '' '' p)
             (py_replace (get_text [] sm) [] (get_text '' '' p)))"
proof -
  from assms(1,2) have "card_title_status mu =
      (py_strip (py_replace (get_text [] sm) [] (get_text '' '' p)), Some (get_text [] sm))"
    by (simp add: card_title_status_def)
  with card_record_fields[OF assms(3)]
  have 1: "status r = Some (get_text [] sm)"
    and 2: "title r = py_strip (py_replace (get_text [] sm) [] (get_text '' '' p))" by simp_all
  have 3: "if get_text [] sm = [] then py_replace (get_text [] sm) [] (get_text '' '' p) = get_text '' '' p
      else deletes (get_text [] sm) (get_text '' '' p)
             (py_replace (get_text [] sm) [] (get_text '' '' p))"
  proof (cases "get_text [] sm = []")
    case True
    then show ?thesis by (simp add: py_replace_empty_old)
  next
    case False
    then show ?thesis using replace_from_deletes[of "get_text [] sm" "get_text '' '' p"]
      by (simp add: py_replace_def)
  qed
  from 1 2 3 show ?thesis by blast
qed

text \<open>
  The title text \<open>Live Final Live\<close> with the status \<open>Live\<close>: both occurrences go, and
  the title is \<open>Final\<close>.
\<close>

theorem card_title_without_status_witness:
  "fst (card_record no_network sample_world sample_card) =
     Some \<lparr>title = ''Final'', teams = [], team_images = [], status = Some ''Live'',
           time_or_venue = None, link = None\<rparr> \<and>
   get_text '' '' (Elem ''p'' [] [] [Text ''Live Final '', Elem ''small'' [] [] [Text ''Live'']])
     = ''Live Final Live'' \<and>
   ''Final'' = py_strip (py_replace ''Live'' [] ''Live Final Live'') \<and>
   deletes ''Live'' ''Live Final Live'' (py_replace ''Live'' [] ''Live Final Live'')"
proof -
  let ?p = "Elem ''p'' [] [] [Text ''Live Final '', Elem ''small'' [] [] [Text ''Live'']]"
  let ?sm = "Elem ''small'' [] [] [Text ''Live'']"
  let ?r = "\<lparr>title = ''Final'', teams = [], team_images = [], status = Some ''Live'',
           time_or_venue = None, link = None\<rparr>"
  have a: "find_first (is_tag ''p'') sample_card = Some ?p" by code_simp
  have b: "find_first (is_tag ''small'') ?p = Some ?sm" by code_simp
  have c: "fst (card_record no_network sample_world sample_card) = Some ?r" by code_simp
  have d: "get_text [] ?sm = ''Live''" by code_simp
  have e: "get_text '' '' ?p = ''Live Final Live''" by code_simp
  note t = card_title_without_status[OF a b c, unfolded d e]
  have ne: "(''Live'' = []) = False" by simp
  from t have t1: "title ?r = py_strip (py_replace ''Live'' [] ''Live Final Live'')"
    by (elim conjE)
  from t have "if ''Live'' = [] then py_replace ''Live'' [] ''Live Final Live'' = ''Live Final Live''
      else deletes ''Live'' ''Live Final Live'' (py_replace ''Live'' [] ''Live Final Live'')"
    by (elim conjE)
  then have t2: "deletes ''Live'' ''Live Final Live'' (py_replace ''Live'' [] ''Live Final Live'')"
    by (simp only: ne if_False)
  have "title ?r = ''Final''" by simp
  with t1 have t3: "''Final'' = py_strip (py_replace ''Live'' [] ''Live Final Live'')"
    by (simp only:)
  from c e t3 t2 show ?thesis by (intro conjI)
qed


section \<open>The lengths of the team and image lists\<close>






section \<open>The merge keeps the first record of every key\<close>

lemma key_for_fields:
  "key_for a = title a @ ''|'' @ py_join ''-'' (teams a) @ ''|'' @
     (case time_or_venue a of Some t \<Rightarrow> t | None \<Rightarrow> [])"
  by (simp add: key_for_def)

lemma split_at_first:
  "c \<notin> set xs \<Longrightarrow> c \<notin> set ys \<Longrightarrow> xs @ c # r = ys @ c # r' \<Longrightarrow> xs = ys \<and> r = r'"
proof (induction xs arbitrary: ys)
  case Nil
  then show ?case by (cases ys) auto
next
  case (Cons x xs)
  then show ?case by (cases ys) auto
qed

lemma key_for_parts:
  assumes k: "key_for a = key_for b"
    and ta: "CHR ''|'' \<notin> set (title a)" and tb: "CHR ''|'' \<notin> set (title b)"
    and ja: "CHR ''|'' \<notin> set (py_join ''-'' (teams a))"
    and jb: "CHR ''|'' \<notin> set (py_join ''-'' (teams b))"
  shows "title a = title b \<and> py_join ''-'' (teams a) = py_join ''-'' (teams b) \<and>
     (case time_or_venue a of Some t \<Rightarrow> t | None \<Rightarrow> []) =
     (case time_or_venue b of Some t \<Rightarrow> t | None \<Rightarrow> [])"
proof -
  let ?va = "case time_or_venue a of Some t \<Rightarrow> t | None \<Rightarrow> []"
  let ?vb = "case time_or_venue b of Some t \<Rightarrow> t | None \<Rightarrow> []"
  from k have e: "title a @ CHR ''|'' # (py_join ''-'' (teams a) @ CHR ''|'' # ?va) =
      title b @ CHR ''|'' # (py_join ''-'' (teams b) @ CHR ''|'' # ?vb)"
    by (simp add: key_for_def)
  have 1: "title a = title b \<and>
      py_join ''-'' (teams a) @ CHR ''|'' # ?va = py_join ''-'' (teams b) @ CHR ''|'' # ?vb"
    by (rule split_at_first[OF ta tb e])
  then have "py_join ''-'' (teams a) @ CHR ''|'' # ?va = py_join ''-'' (teams b) @ CHR ''|'' # ?vb" ..
  then have 2: "py_join ''-'' (teams a) = py_join ''-'' (teams b) \<and> ?va = ?vb"
    by (rule split_at_first[OF ja jb])
  from 1 2 show ?thesis by blast
qed

text \<open>
  Claim C3, with the key that the code builds. The extractor returns the merge of the
  card-pass records followed by the table-pass records. The key of a record is one
  string: its title, \<open>|\<close>, its teams joined by \<open>-\<close>, \<open>|\<close>, and its time or venue (nothing
  when absent). Records with the same title, teams and time or venue have the same key;
  two records with the same key have the same title, the same joined teams and the same
  time or venue text when no \<open>|\<close> occurs in their titles and joined teams, and they may
  differ in them otherwise. The result of the merge is a subsequence of the concatenation
  (the order is kept and nothing is added), no two of its records have the same key,
  every key of the input is still there and the number of records is the number of
  different keys (nothing else is dropped: no cap), every record kept is the first of
  the concatenation with its key, and so a key that a card record has is represented by
  the first card record with it, never by a table record.
\<close>

theorem merge_items_first_occurrence:
  "fst (parse_schedules_html net w doc) =
     merge_items (fst (parse_match_updates net w (tnode (find_content_root doc))))
       (fst (parse_schedule_table net
              (snd (parse_match_updates net w (tnode (find_content_root doc))))
              (find_content_root doc))) \<and>
   key_for a = title a @ ''|'' @ py_join ''-'' (teams a) @ ''|'' @
     (case time_or_venue a of Some t \<Rightarrow> t | None \<Rightarrow> []) \<and>
   (title a = title b \<and> teams a = teams b \<and> time_or_venue a = time_or_venue b \<longrightarrow>
      key_for a = key_for b) \<and>
   (key_for a = key_for b \<and>
    CHR ''|'' \<notin> set (title a) \<and> CHR ''|'' \<notin> set (title b) \<and>
    CHR ''|'' \<notin> set (py_join ''-'' (teams a)) \<and> CHR ''|'' \<notin> set (py_join ''-'' (teams b)) \<longrightarrow>
      title a = title b \<and> py_join ''-'' (teams a) = py_join ''-'' (teams b) \<and>
      (case time_or_venue a of Some t \<Rightarrow> t | None \<Rightarrow> []) =
      (case time_or_venue b of Some t \<Rightarrow> t | None \<Rightarrow> [])) \<and>
   subseq (merge_items card_items table_items) (card_items @ table_items) \<and>
   distinct (map key_for (merge_items card_items table_items)) \<and>
   key_for ` set (merge_items card_items table_items) = key_for ` set (card_items @ table_items) \<and>
   length (merge_items card_items table_items) = card (key_for ` set (card_items @ table_items)) \<and>
   (\<forall>x \<in> set (merge_items card_items table_items).
      List.find (\<lambda>y. key_for y = key_for x) (card_items @ table_items) = Some x \<and>
      ((\<exists>c \<in> set card_items. key_for c = key_for x) \<longrightarrow>
         List.find (\<lambda>y. key_for y = key_for x) card_items = Some x))"
proof -
  let ?m = "merge_items card_items table_items"
  let ?all = "card_items @ table_items"
  have m: "?m = merge_loop {} [] ?all" by (simp add: merge_items_def)
  have k1: "title a = title b \<and> teams a = teams b \<and> time_or_venue a = time_or_venue b \<longrightarrow>
      key_for a = key_for b"
    by (simp add: key_for_def)
  have k2: "key_for a = key_for b \<and>
    CHR ''|'' \<notin> set (title a) \<and> CHR ''|'' \<notin> set (title b) \<and>
    CHR ''|'' \<notin> set (py_join ''-'' (teams a)) \<and> CHR ''|'' \<notin> set (py_join ''-'' (teams b)) \<longrightarrow>
      title a = title b \<and> py_join ''-'' (teams a) = py_join ''-'' (teams b) \<and>
      (case time_or_venue a of Some t \<Rightarrow> t | None \<Rightarrow> []) =
      (case time_or_venue b of Some t \<Rightarrow> t | None \<Rightarrow> [])"
    using key_for_parts[of a b] by blast
  have 1: "subseq ?m ?all" unfolding m by (rule merge_loop_subseq)
  have 2: "distinct (map key_for ?m)" unfolding m by (rule merge_loop_distinct)
  have 3: "key_for ` set ?m = key_for ` set ?all" unfolding m merge_loop_keys by simp
  have "length ?m = length (map key_for ?m)" by simp
  also have "\<dots> = card (set (map key_for ?m))" using 2 by (simp only: distinct_card)
  also have "\<dots> = card (key_for ` set ?all)" using 3 by simp
  finally have 4: "length ?m = card (key_for ` set ?all)" .
  have 5: "\<forall>x \<in> set ?m.
      List.find (\<lambda>y. key_for y = key_for x) ?all = Some x \<and>
      ((\<exists>c \<in> set card_items. key_for c = key_for x) \<longrightarrow>
         List.find (\<lambda>y. key_for y = key_for x) card_items = Some x)"
  proof
    fix x assume "x \<in> set ?m"
    then have f: "List.find (\<lambda>y. key_for y = key_for x) ?all = Some x"
      unfolding m by (rule merge_loop_first)
    then show "List.find (\<lambda>y. key_for y = key_for x) ?all = Some x \<and>
      ((\<exists>c \<in> set card_items. key_for c = key_for x) \<longrightarrow>
         List.find (\<lambda>y. key_for y = key_for x) card_items = Some x)"
      using find_append_first[of "\<lambda>y. key_for y = key_for x" card_items table_items x] by blast
  qed
  note p = parse_schedules_html_merge[of net w doc]
  note k0 = key_for_fields[of a]
  show ?thesis by (intro conjI p k0 k1 k2 1 2 3 4 5)
qed

text \<open>
  A card record and a table record with the same title, teams and time, and a second
  table record with another key: the two have the same key, and the card record and the
  second table record are the result.
\<close>

theorem merge_items_first_occurrence_witness:
  "merge_items
     [\<lparr>title = ''T'', teams = [''A'', ''B''], team_images = [], status = Some ''Live'',
       time_or_venue = Some ''x'', link = None\<rparr>]
     [\<lparr>title = ''T'', teams = [''A'', ''B''], team_images = [], status = None,
       time_or_venue = Some ''x'', link = None\<rparr>,
      \<lparr>title = ''U'', teams = [], team_images = [], status = None,
       time_or_venue = None, link = None\<rparr>]
   = [\<lparr>title = ''T'', teams = [''A'', ''B''], team_images = [], status = Some ''Live'',
       time_or_venue = Some ''x'', link = None\<rparr>,
      \<lparr>title = ''U'', teams = [], team_images = [], status = None,
       time_or_venue = None, link = None\<rparr>]
   \<and> key_for \<lparr>title = ''T'', teams = [''A'', ''B''], team_images = [], status = Some ''Live'',
       time_or_venue = Some ''x'', link = None\<rparr> =
     key_for \<lparr>title = ''T'', teams = [''A'', ''B''], team_images = [], status = None,
       time_or_venue = Some ''x'', link = None\<rparr>
   \<and> key_for \<lparr>title = ''T'', teams = [''A'', ''B''], team_images = [], status = Some ''Live'',
       time_or_venue = Some ''x'', link = None\<rparr> = ''T|A-B|x''
   \<and> length (merge_items
     [\<lparr>title = ''T'', teams = [''A'', ''B''], team_images = [], status = Some ''Live'',
       time_or_venue = Some ''x'', link = None\<rparr>]
     [\<lparr>title = ''T'', teams = [''A'', ''B''], team_images = [], status = None,
       time_or_venue = Some ''x'', link = None\<rparr>,
      \<lparr>title = ''U'', teams = [], team_images = [], status = None,
       time_or_venue = None, link = None\<rparr>])
     = card (key_for ` set ([\<lparr>title = ''T'', teams = [''A'', ''B''], team_images = [], status = Some ''Live'',
       time_or_venue = Some ''x'', link = None\<rparr>] @
     [\<lparr>title = ''T'', teams = [''A'', ''B''], team_images = [], status = None,
       time_or_venue = Some ''x'', link = None\<rparr>,
      \<lparr>title = ''U'', teams = [], team_images = [], status = None,
       time_or_venue = None, link = None\<rparr>]))"
proof -
  let ?c = "\<lparr>title = ''T'', teams = [''A'', ''B''], team_images = [], status = Some ''Live'',
       time_or_venue = Some ''x'', link = None\<rparr>"
  let ?t = "\<lparr>title = ''T'', teams = [''A'', ''B''], team_images = [], status = None,
       time_or_venue = Some ''x'', link = None\<rparr>"
  let ?u = "\<lparr>title = ''U'', teams = [], team_images = [], status = None,
       time_or_venue = None, link = None\<rparr>"
  note t = merge_items_first_occurrence[where net = no_network and w = sample_world
      and doc = sample_page and card_items = "[?c]" and table_items = "[?t, ?u]"
      and a = ?c and b = ?t]
  have e: "merge_items [?c] [?t, ?u] = [?c, ?u]"
    by (simp add: merge_items_def key_for_def)
  from t have "title ?c = title ?t \<and> teams ?c = teams ?t \<and> time_or_venue ?c = time_or_venue ?t \<longrightarrow>
      key_for ?c = key_for ?t" by (elim conjE)
  then have k: "key_for ?c = key_for ?t" by simp
  from t have "key_for ?c = title ?c @ ''|'' @ py_join ''-'' (teams ?c) @ ''|'' @
     (case time_or_venue ?c of Some t \<Rightarrow> t | None \<Rightarrow> [])" by (elim conjE)
  then have v: "key_for ?c = ''T|A-B|x''" by simp
  from t have l: "length (merge_items [?c] [?t, ?u]) = card (key_for ` set ([?c] @ [?t, ?u]))"
    by (elim conjE)
  from e k v l show ?thesis by (intro conjI)
qed

text \<open>
  Two cards, the first with the title \<open>T|\<close> and no team, the second with the title \<open>T\<close>
  and the team \<open>|\<close>: the card pass gives two records that differ in their titles and
  in their teams, the key of both is \<open>T|||\<close>, and the extractor returns the first only.
\<close>

theorem merge_items_first_occurrence_counterexample:
  "fst (parse_match_updates no_network sample_world (tnode (find_content_root bar_page))) =
     [bar_title_record, bar_team_record] \<and>
   fst (parse_schedules_html no_network sample_world bar_page) = [bar_title_record] \<and>
   title bar_title_record = ''T|'' \<and> title bar_team_record = ''T'' \<and>
   py_join ''-'' (teams bar_title_record) = [] \<and>
   py_join ''-'' (teams bar_team_record) = ''|'' \<and>
   time_or_venue bar_title_record = None \<and> time_or_venue bar_team_record = None \<and>
   key_for bar_title_record = ''T|||'' \<and> key_for bar_team_record = ''T|||''"
proof -
  have 1: "fst (parse_match_updates no_network sample_world (tnode (find_content_root bar_page))) =
     [bar_title_record, bar_team_record]" by code_simp
  have 2: "fst (parse_schedules_html no_network sample_world bar_page) = [bar_title_record]"
    by code_simp
  have 3: "title bar_title_record = ''T|''" by code_simp
  have 4: "title bar_team_record = ''T''" by code_simp
  have 5: "py_join ''-'' (teams bar_title_record) = []" by code_simp
  have 6: "py_join ''-'' (teams bar_team_record) = ''|''" by code_simp
  have 7: "time_or_venue bar_title_record = None" by code_simp
  have 8: "time_or_venue bar_team_record = None" by code_simp
  have 9: "key_for bar_title_record = ''T|||''" by code_simp
  have 10: "key_for bar_team_record = ''T|||''" by code_simp
  from 1 2 3 4 5 6 7 8 9 10 show ?thesis by (intro conjI)
qed

section \<open>No record without a title, a team or a time\<close>












section \<open>Slugify yields a token and is idempotent\<close>

lemma slug_char_not_space: "is_slug_char c \<Longrightarrow> \<not> is_space c"
  by (auto simp: is_slug_char_def is_space_def)

lemma hyphen_not_slug_char: "\<not> is_slug_char (CHR ''-'')"
  by (simp add: is_slug_char_def)

lemma lower_char_other:
  assumes "c \<notin> set upper_chars"
  shows "lower_char c = c"
proof -
  have "length upper_chars = length lower_chars" by (simp add: upper_chars_def lower_chars_def)
  from map_of_zip_is_None[OF this, of c] assms
  have "map_of (zip upper_chars lower_chars) c = None" by blast
  then show ?thesis by (simp only: lower_char_def option.case)
qed

lemma slug_char_not_upper: "is_slug_char c \<or> c = CHR ''-'' \<Longrightarrow> c \<notin> set upper_chars"
  by (auto simp: is_slug_char_def upper_chars_def)

lemma lower_char_fixed: "is_slug_char c \<or> c = CHR ''-'' \<Longrightarrow> lower_char c = c"
  using lower_char_other slug_char_not_upper by blast

lemma sub_runs_all:
  "\<forall>c \<in> set s. P c \<Longrightarrow> sub_runs P rep s = (if s = [] then [] else rep)"
proof (cases s)
  case Nil
  then show ?thesis by simp
next
  case (Cons c cs)
  assume a: "\<forall>c \<in> set s. P c"
  with Cons have "dropWhile P cs = []" by simp
  then have "sub_runs P rep (dropWhile P cs) = []" by (simp only: sub_runs.simps)
  with a Cons show ?thesis by simp
qed

lemma unknown_token: "slug_token ''unknown''"
  by (simp add: slug_token_def is_slug_char_def sublist_Cons_right)

lemma slugify_token: "slug_token (slugify name)"
proof -
  define a where "a = py_lower (py_strip name)"
  define b where "b = sub_runs (\<lambda>c. \<not> is_slug_char c) ''-'' a"
  define c where "c = sub_runs (\<lambda>c. c = CHR ''-'') ''-'' b"
  define d where "d = strip_chars ''-'' c"
  have r: "slugify name = (if d = [] then ''unknown'' else d)"
    by (simp add: slugify_def a_def b_def c_def d_def)
  have sb: "\<forall>x \<in> set b. is_slug_char x \<or> x = CHR ''-''"
    using sub_runs_set[of "\<lambda>c. \<not> is_slug_char c" "''-''" a] by (auto simp: b_def)
  have sc: "\<forall>x \<in> set c. is_slug_char x \<or> x = CHR ''-''"
    using sub_runs_set[of "\<lambda>c. c = CHR ''-''" "''-''" b] sb by (auto simp: c_def)
  have nc: "\<not> sublist ''--'' c" unfolding c_def by (rule sub_runs_hyphen_no_double)
  have dc: "sublist d c" unfolding d_def strip_chars_def by (rule strip_where_sublist)
  have sd: "\<forall>x \<in> set d. is_slug_char x \<or> x = CHR ''-''"
    using sc dc set_mono_sublist by blast
  have nd: "\<not> sublist ''--'' d"
    using nc dc sublist_order.order_trans by blast
  show ?thesis
  proof (cases "d = []")
    case True
    with r show ?thesis by (simp add: unknown_token)
  next
    case False
    have "hd d \<noteq> CHR ''-''"
      using strip_where_hd[of "\<lambda>c. c \<in> set ''-''" c] False
      by (simp add: d_def strip_chars_def)
    moreover have "last d \<noteq> CHR ''-''"
      using strip_where_last[of "\<lambda>c. c \<in> set ''-''" c] False
      by (simp add: d_def strip_chars_def)
    ultimately show ?thesis using False r sd nd by (simp add: slug_token_def)
  qed
qed

lemma slugify_fixed:
  assumes "slug_token t"
  shows "slugify t = t"
proof -
  from assms have ne: "t \<noteq> []"
    and ch: "\<forall>c \<in> set t. is_slug_char c \<or> c = CHR ''-''"
    and h: "hd t \<noteq> CHR ''-''" and l: "last t \<noteq> CHR ''-''"
    and nd: "\<not> sublist ''--'' t"
    by (auto simp: slug_token_def)
  have "hd t \<in> set t" "last t \<in> set t" using ne by auto
  with ch h l have "is_slug_char (hd t)" "is_slug_char (last t)" by auto
  then have "\<not> is_space (hd t)" "\<not> is_space (last t)" by (auto dest: slug_char_not_space)
  with ne have 1: "py_strip t = t" unfolding py_strip_def by (rule strip_where_id)
  have 2: "py_lower t = t"
    unfolding py_lower_def using ch by (simp add: map_idI lower_char_fixed)
  have "\<And>c. c \<in> set t \<Longrightarrow> (\<not> is_slug_char c) = (c = CHR ''-'')"
    using ch hyphen_not_slug_char by auto
  then have "sub_runs (\<lambda>c. \<not> is_slug_char c) ''-'' t = sub_runs (\<lambda>c. c = CHR ''-'') ''-'' t"
    by (rule sub_runs_cong)
  also have "\<dots> = t" using nd by (rule sub_runs_hyphen_id)
  finally have 3: "sub_runs (\<lambda>c. \<not> is_slug_char c) ''-'' t = t" .
  have 4: "sub_runs (\<lambda>c. c = CHR ''-'') ''-'' t = t" using nd by (rule sub_runs_hyphen_id)
  have 5: "strip_chars ''-'' t = t"
    unfolding strip_chars_def using ne h l by (intro strip_where_id) auto
  show ?thesis using ne by (simp add: slugify_def 1 2 3 4 5)
qed

lemma slugify_placeholder:
  assumes "\<forall>c \<in> set name. \<not> is_slug_char (lower_char c)"
  shows "slugify name = ''unknown''"
proof -
  define a where "a = py_lower (py_strip name)"
  have "set (py_strip name) \<subseteq> set name" unfolding py_strip_def by (rule strip_where_set)
  with assms have "\<forall>c \<in> set a. \<not> is_slug_char c" by (auto simp: a_def py_lower_def)
  then have b: "sub_runs (\<lambda>c. \<not> is_slug_char c) ''-'' a = (if a = [] then [] else ''-'')"
    by (rule sub_runs_all)
  have "strip_chars ''-'' (sub_runs (\<lambda>c. c = CHR ''-'') ''-'' (if a = [] then [] else ''-'')) = []"
    by (simp add: strip_chars_def strip_where_def)
  with b show ?thesis by (simp add: slugify_def a_def[symmetric])
qed

lemma df_slugify_eq: "df_slugify name = slugify name"
  by (simp add: df_slugify_def slugify_def)

text \<open>
  Claim C5. For every input string, \<open>_slugify\<close> (and the identical \<open>slugify\<close> of
  the batch script) returns a non-empty token of lower-case letters and digits in runs
  separated by single hyphens, with no hyphen at either end; applied to its own result
  it returns that result; the empty string, and any string without a letter or digit,
  gives the placeholder \<open>unknown\<close>, which is such a token too.
\<close>

theorem slugify_token_idempotent:
  "slug_token (slugify name) \<and> slugify (slugify name) = slugify name \<and>
   slug_token (df_slugify name) \<and> df_slugify (df_slugify name) = df_slugify name \<and>
   slug_token (slugify []) \<and>
   ((\<forall>c \<in> set name. \<not> is_slug_char (lower_char c)) \<longrightarrow> slugify name = ''unknown'')"
proof -
  have 1: "slug_token (slugify name)" by (rule slugify_token)
  have 2: "slugify (slugify name) = slugify name" using 1 by (rule slugify_fixed)
  have 3: "slug_token (slugify [])" by (rule slugify_token)
  have 4: "(\<forall>c \<in> set name. \<not> is_slug_char (lower_char c)) \<longrightarrow> slugify name = ''unknown''"
    using slugify_placeholder by blast
  show ?thesis unfolding df_slugify_eq using 1 2 3 4 by blast
qed

theorem slugify_token_idempotent_witness:
  "slugify ''  Sri  Lanka (A) '' = ''sri-lanka-a'' \<and> slug_token ''sri-lanka-a'' \<and>
   slugify ''sri-lanka-a'' = ''sri-lanka-a'' \<and> slugify ''?!'' = ''unknown'' \<and>
   slugify [] = ''unknown''"
proof -
  have e: "slugify ''  Sri  Lanka (A) '' = ''sri-lanka-a''" by code_simp
  have p: "\<forall>c \<in> set ''?!''. \<not> is_slug_char (lower_char c)"
    by (simp add: is_slug_char_def lower_char_def upper_chars_def lower_chars_def)
  have q: "\<forall>c \<in> set []. \<not> is_slug_char (lower_char c)" by simp
  note t = slugify_token_idempotent[of "''  Sri  Lanka (A) ''"]
  have a: "slug_token (slugify ''  Sri  Lanka (A) '')" using t by (rule conjunct1)
  have b: "slugify (slugify ''  Sri  Lanka (A) '') = slugify ''  Sri  Lanka (A) ''"
    using t by (elim conjE)
  have c: "slugify ''?!'' = ''unknown''"
    using slugify_token_idempotent[of "''?!''"] p by (elim conjE impE)
  have d: "slugify [] = ''unknown''"
    using slugify_token_idempotent[of "[]"] q by (elim conjE impE)
  from a b have a': "slug_token ''sri-lanka-a''"
    and b': "slugify ''sri-lanka-a'' = ''sri-lanka-a''" by (simp_all only: e)
  from e a' b' c d show ?thesis by (intro conjI)
qed

section \<open>The source normalizer\<close>

lemma flag_match_here_pattern:
  assumes "flag_match_here s = Some d"
  shows "d \<noteq> [] \<and> list_all is_digit d \<and>
     (\<exists>dir ext post. s = dir @ d @ ''.'' @ ext @ post \<and>
        (dir = ''cricflag/'' \<or> dir = ''flags/'') \<and> (ext = ''png'' \<or> ext = ''gif''))"
proof -
  from assms obtain dir r where s: "s = dir @ r"
    and dir: "dir = ''cricflag/'' \<or> dir = ''flags/''"
    and d: "d = takeWhile is_digit r" and ne: "d \<noteq> []"
    and ext: "prefix ''.png'' (dropWhile is_digit r) \<or> prefix ''.gif'' (dropWhile is_digit r)"
  proof (cases "prefix ''cricflag/'' s")
    case True
    then obtain r where r: "s = ''cricflag/'' @ r" by (auto simp: prefix_def)
    with assms have "d = takeWhile is_digit r \<and> d \<noteq> [] \<and>
      (prefix ''.png'' (dropWhile is_digit r) \<or> prefix ''.gif'' (dropWhile is_digit r))"
      by (auto simp: flag_match_here_def Let_def split: if_splits)
    with r that[of "''cricflag/''" r] show ?thesis by blast
  next
    case False
    show ?thesis
    proof (cases "prefix ''flags/'' s")
      case True
      then obtain r where r: "s = ''flags/'' @ r" by (auto simp: prefix_def)
      with assms False have "d = takeWhile is_digit r \<and> d \<noteq> [] \<and>
        (prefix ''.png'' (dropWhile is_digit r) \<or> prefix ''.gif'' (dropWhile is_digit r))"
        by (auto simp: flag_match_here_def Let_def split: if_splits)
      with r that[of "''flags/''" r] show ?thesis by blast
    next
      case f2: False
      with False assms show ?thesis by (simp add: flag_match_here_def)
    qed
  qed
  have "\<exists>ext0 post. dropWhile is_digit r = ''.'' @ ext0 @ post \<and> (ext0 = ''png'' \<or> ext0 = ''gif'')"
    using ext
  proof
    assume "prefix ''.png'' (dropWhile is_digit r)"
    then obtain post where "dropWhile is_digit r = ''.'' @ ''png'' @ post" by (auto simp: prefix_def)
    then show ?thesis by blast
  next
    assume "prefix ''.gif'' (dropWhile is_digit r)"
    then obtain post where "dropWhile is_digit r = ''.'' @ ''gif'' @ post" by (auto simp: prefix_def)
    then show ?thesis by blast
  qed
  then obtain ext0 post where dw: "dropWhile is_digit r = ''.'' @ ext0 @ post"
    and e0: "ext0 = ''png'' \<or> ext0 = ''gif''" by blast
  have "r = takeWhile is_digit r @ dropWhile is_digit r" by simp
  with d dw have "r = d @ ''.'' @ ext0 @ post" by simp
  with s have "s = dir @ d @ ''.'' @ ext0 @ post" by simp
  moreover have "list_all is_digit d" unfolding d list_all_iff by (auto dest: set_takeWhileD)
  ultimately show ?thesis using ne dir e0 by blast
qed

lemma flag_search_pattern: "flag_search s = Some d \<Longrightarrow> flag_pattern s d"
proof (induction s)
  case Nil
  then show ?case by simp
next
  case (Cons c cs)
  show ?case
  proof (cases "flag_match_here (c # cs)")
    case None
    with Cons have "flag_pattern cs d" by simp
    then obtain pre dir ext post where "cs = pre @ dir @ d @ ''.'' @ ext @ post"
      "dir = ''cricflag/'' \<or> dir = ''flags/''" "ext = ''png'' \<or> ext = ''gif''"
      and dd: "d \<noteq> []" "list_all is_digit d"
      unfolding flag_pattern_def by blast
    then have "c # cs = (c # pre) @ dir @ d @ ''.'' @ ext @ post \<and>
      (dir = ''cricflag/'' \<or> dir = ''flags/'') \<and> (ext = ''png'' \<or> ext = ''gif'')" by simp
    with dd show ?thesis unfolding flag_pattern_def by blast
  next
    case (Some e)
    with Cons.prems have "e = d" by simp
    with Some flag_match_here_pattern[of "c # cs" d]
    have "d \<noteq> [] \<and> list_all is_digit d \<and>
     (\<exists>dir ext post. c # cs = [] @ dir @ d @ ''.'' @ ext @ post \<and>
        (dir = ''cricflag/'' \<or> dir = ''flags/'') \<and> (ext = ''png'' \<or> ext = ''gif''))" by simp
    then show ?thesis unfolding flag_pattern_def by blast
  qed
qed

lemma flag_match_here_complete:
  assumes "d \<noteq> []" "list_all is_digit d"
    and "dir = ''cricflag/'' \<or> dir = ''flags/''" and "ext = ''png'' \<or> ext = ''gif''"
  shows "flag_match_here (dir @ d @ ''.'' @ ext @ post) = Some d"
proof -
  have nd: "\<not> is_digit (CHR ''.'')" by (simp add: is_digit_def)
  from assms(2) have all: "\<forall>x \<in> set d. is_digit x" by (simp add: list_all_iff)
  have tw: "takeWhile is_digit (d @ ''.'' @ ext @ post) = d"
    using all nd by (simp add: takeWhile_append2)
  have dw: "dropWhile is_digit (d @ ''.'' @ ext @ post) = ''.'' @ ext @ post"
    using all nd by (simp add: dropWhile_append2)
  from assms(3) show ?thesis
  proof
    assume "dir = ''cricflag/''"
    then show ?thesis using tw dw assms(1,4)
      by (auto simp: flag_match_here_def Let_def)
  next
    assume "dir = ''flags/''"
    then show ?thesis using tw dw assms(1,4)
      by (auto simp: flag_match_here_def Let_def)
  qed
qed

lemma flag_search_append: "flag_search s \<noteq> None \<Longrightarrow> flag_search (pre @ s) \<noteq> None"
  by (induction pre) (auto split: option.splits)

lemma flag_search_complete: "flag_pattern s d \<Longrightarrow> flag_search s \<noteq> None"
proof -
  assume "flag_pattern s d"
  then obtain pre dir ext post where s: "s = pre @ dir @ d @ ''.'' @ ext @ post"
    and a: "dir = ''cricflag/'' \<or> dir = ''flags/''" "ext = ''png'' \<or> ext = ''gif''"
    "d \<noteq> []" "list_all is_digit d"
    unfolding flag_pattern_def by blast
  then have m: "flag_match_here (dir @ d @ ''.'' @ ext @ post) = Some d"
    using flag_match_here_complete by blast
  from a(1) obtain c cs where "dir @ d @ ''.'' @ ext @ post = c # cs" by auto
  with m have "flag_search (dir @ d @ ''.'' @ ext @ post) \<noteq> None" by simp
  then show ?thesis unfolding s by (rule flag_search_append)
qed

lemma norm_src_local:
  assumes "s \<noteq> []" "flag_search s = Some flag_id" "known_path w flag_id = Some p" "p \<noteq> []"
  shows "fst (norm_src w (Some s)) = Some p"
  using assms by (simp add: norm_src_def local_gif_for_src_def truthy_def known_path_def Let_def)

lemma norm_src_other:
  assumes "s \<noteq> []"
    and "\<not> (\<exists>flag_id p. flag_search s = Some flag_id \<and> known_path w flag_id = Some p \<and> p \<noteq> [])"
  shows "fst (norm_src w (Some s)) =
     (if prefix ''data:'' s then None
      else if prefix ''//'' s then Some (''https:'' @ s)
      else if prefix ''/'' s then Some (''https://hamariweb.com'' @ s)
      else Some s)"
proof (cases "flag_search s")
  case None
  with assms(1) show ?thesis
    by (simp add: norm_src_def local_gif_for_src_def truthy_def)
next
  case (Some flag_id)
  with assms(2) have "\<not> truthy (known_path w flag_id)"
    by (auto simp: truthy_def split: option.splits)
  with Some assms(1) show ?thesis
    by (simp add: norm_src_def local_gif_for_src_def truthy_def known_path_def Let_def)
qed

text \<open>
  Claim C6. \<open>_norm_src\<close> gives nothing for an absent or empty reference. A reference
  matches the flag path pattern exactly when the search finds an id in it; when the
  mapping holds a non-empty local path for the id found, that path is the result,
  whatever the reference starts with. In every other case a reference starting with
  \<open>data:\<close> gives nothing, one starting with \<open>//\<close> gets \<open>https:\<close> in front, one
  starting with \<open>/\<close> gets the origin \<open>https://hamariweb.com\<close> in front, and any other
  reference is returned as it is.
\<close>

theorem norm_src_rules:
  "fst (norm_src w None) = None \<and> fst (norm_src w (Some [])) = None \<and>
   ((\<exists>flag_id. flag_pattern s flag_id) \<longleftrightarrow> flag_search s \<noteq> None) \<and>
   (\<forall>flag_id. flag_search s = Some flag_id \<longrightarrow> flag_pattern s flag_id) \<and>
   (\<forall>flag_id p. s \<noteq> [] \<and> flag_search s = Some flag_id \<and> known_path w flag_id = Some p \<and> p \<noteq> []
      \<longrightarrow> fst (norm_src w (Some s)) = Some p) \<and>
   (s \<noteq> [] \<and>
    \<not> (\<exists>flag_id p. flag_search s = Some flag_id \<and> known_path w flag_id = Some p \<and> p \<noteq> [])
      \<longrightarrow> fst (norm_src w (Some s)) =
           (if prefix ''data:'' s then None
            else if prefix ''//'' s then Some (''https:'' @ s)
            else if prefix ''/'' s then Some (''https://hamariweb.com'' @ s)
            else Some s))"
proof -
  have 1: "fst (norm_src w None) = None" "fst (norm_src w (Some [])) = None"
    by (simp_all add: norm_src_def truthy_def)
  have 2: "(\<exists>flag_id. flag_pattern s flag_id) \<longleftrightarrow> flag_search s \<noteq> None"
    using flag_search_complete flag_search_pattern by blast
  have 3: "\<forall>flag_id. flag_search s = Some flag_id \<longrightarrow> flag_pattern s flag_id"
    using flag_search_pattern by blast
  have 4: "\<forall>flag_id p. s \<noteq> [] \<and> flag_search s = Some flag_id \<and> known_path w flag_id = Some p \<and> p \<noteq> []
      \<longrightarrow> fst (norm_src w (Some s)) = Some p"
    using norm_src_local by blast
  have 5: "s \<noteq> [] \<and>
    \<not> (\<exists>flag_id p. flag_search s = Some flag_id \<and> known_path w flag_id = Some p \<and> p \<noteq> [])
      \<longrightarrow> fst (norm_src w (Some s)) =
           (if prefix ''data:'' s then None
            else if prefix ''//'' s then Some (''https:'' @ s)
            else if prefix ''/'' s then Some (''https://hamariweb.com'' @ s)
            else Some s)"
    using norm_src_other by blast
  from 1 2 3 4 5 show ?thesis by blast
qed

theorem norm_src_rules_witness:
  "fst (norm_src sample_world (Some ''data:/flags/12.gif'')) = Some ''/static/flags/by-name/pk.gif'' \<and>
   fst (norm_src sample_world (Some ''data:/flags/7.gif'')) = None \<and>
   fst (norm_src sample_world (Some ''//x/y.png'')) = Some ''https://x/y.png'' \<and>
   fst (norm_src sample_world (Some ''/a/b'')) = Some ''https://hamariweb.com/a/b'' \<and>
   fst (norm_src sample_world (Some ''https://already/abs'')) = Some ''https://already/abs''"
proof -
  note local = norm_src_rules[THEN conjunct2, THEN conjunct2, THEN conjunct2, THEN conjunct2,
      THEN conjunct1, rule_format]
  note other = norm_src_rules[THEN conjunct2, THEN conjunct2, THEN conjunct2, THEN conjunct2,
      THEN conjunct2, rule_format]
  have k: "known_path sample_world ''12'' = Some ''/static/flags/by-name/pk.gif''"
    "known_path sample_world ''7'' = None"
    by (simp_all add: known_path_def sample_world_def load_flags_mapping_def flags_truthy_def
        dict_or_empty_def)
  have f1: "flag_search ''data:/flags/12.gif'' = Some ''12''" by code_simp
  have f2: "flag_search ''data:/flags/7.gif'' = Some ''7''" by code_simp
  have f3: "flag_search ''//x/y.png'' = None" by code_simp
  have f4: "flag_search ''/a/b'' = None" by code_simp
  have f5: "flag_search ''https://already/abs'' = None" by code_simp
  note f = f1 f2 f3 f4 f5
  have 1: "fst (norm_src sample_world (Some ''data:/flags/12.gif'')) = Some ''/static/flags/by-name/pk.gif''"
    by (rule local[of _ "''12''"]) (intro conjI f1 k; simp)
  have 2: "fst (norm_src sample_world (Some ''data:/flags/7.gif'')) = None"
    using other[of "''data:/flags/7.gif''" sample_world] unfolding f by (simp add: k)
  have 3: "fst (norm_src sample_world (Some ''//x/y.png'')) = Some ''https://x/y.png''"
    using other[of "''//x/y.png''" sample_world] unfolding f by simp
  have 4: "fst (norm_src sample_world (Some ''/a/b'')) = Some ''https://hamariweb.com/a/b''"
    using other[of "''/a/b''" sample_world] unfolding f by simp
  have 5: "fst (norm_src sample_world (Some ''https://already/abs'')) = Some ''https://already/abs''"
    using other[of "''https://already/abs''" sample_world] unfolding f by simp
  from 1 2 3 4 5 show ?thesis by (intro conjI)
qed


section \<open>The rows of a batting table\<close>

lemma py_index_ok: "i < length xs \<Longrightarrow> py_index xs i = Inr (xs ! i)"
  by (simp add: py_index_def)

lemma stat_cell_ok: "stat_cell tds i = Inr (stat_text tds i)"
  by (simp add: stat_cell_def stat_text_def py_index_def)

lemma sequence_e_Inr: "sequence_e (map (\<lambda>i. Inr (g i)) xs) = Inr (map g xs)"
  by (induction xs) simp_all

lemma stats_ok:
  "sequence_e (map (stat_cell tds) [1, 2, 3, 4, 5]) = Inr (map (stat_text tds) [1, 2, 3, 4, 5])"
proof -
  have "stat_cell tds = (\<lambda>i. Inr (stat_text tds i))" by (rule ext) (rule stat_cell_ok)
  then show ?thesis by (simp only: sequence_e_Inr)
qed

lemma five_ok: "sequence_e (map (py_index [a, b, c, d, e]) [0, 1, 2, 3, 4]) = Inr [a, b, c, d, e]"
  by (simp add: py_index_def)

lemma any_stat:
  "list_ex truthy (map (stat_text (td0 # tds_rest)) [1, 2, 3, 4, 5])
     = list_ex (\<lambda>td. cell_text td \<noteq> []) (take 5 tds_rest)"
proof -
  have l: "list_ex truthy (map (stat_text (td0 # tds_rest)) [1, 2, 3, 4, 5])
      = (\<exists>i<5. i < length tds_rest \<and> cell_text (tds_rest ! i) \<noteq> [])"
    by (simp add: stat_text_def truthy_def eval_nat_numeral Ex_less_Suc) blast
  have r: "list_ex (\<lambda>td. cell_text td \<noteq> []) (take 5 tds_rest)
      = (\<exists>i<5. i < length tds_rest \<and> cell_text (tds_rest ! i) \<noteq> [])"
  proof
    assume "list_ex (\<lambda>td. cell_text td \<noteq> []) (take 5 tds_rest)"
    then obtain x where x: "x \<in> set (take 5 tds_rest)" "cell_text x \<noteq> []"
      by (auto simp: list_ex_iff)
    then obtain i where i: "i < length (take 5 tds_rest)" "take 5 tds_rest ! i = x"
      by (auto simp: in_set_conv_nth)
    then have "i < 5" "i < length tds_rest" "tds_rest ! i = x" by simp_all
    with x(2) show "\<exists>i<5. i < length tds_rest \<and> cell_text (tds_rest ! i) \<noteq> []" by blast
  next
    assume "\<exists>i<5. i < length tds_rest \<and> cell_text (tds_rest ! i) \<noteq> []"
    then obtain i where i: "i < 5" "i < length tds_rest" "cell_text (tds_rest ! i) \<noteq> []" by blast
    then have "i < length (take 5 tds_rest)" "take 5 tds_rest ! i = tds_rest ! i" by simp_all
    then have "tds_rest ! i \<in> set (take 5 tds_rest)" by (metis nth_mem)
    with i(3) show "list_ex (\<lambda>td. cell_text td \<noteq> []) (take 5 tds_rest)"
      by (auto simp: list_ex_iff)
  qed
  show ?thesis unfolding l r ..
qed

lemma extras_not_total: "\<not> (prefix ''extras'' l \<and> prefix ''total'' l)"
  by (cases l) auto

lemma extras_not_dnb: "\<not> (prefix ''extras'' l \<and> prefix ''did not bat'' l)"
  by (cases l) auto

lemma total_not_dnb: "\<not> (prefix ''total'' l \<and> prefix ''did not bat'' l)"
  by (cases l) auto

lemmas label_exclusive = extras_not_total extras_not_dnb total_not_dnb

lemma batting_row_empty:
  "find_all (is_tag ''td'') tr = [] \<Longrightarrow> batting_row st tr = Inr st"
  by (cases st) (simp add: batting_row_def)

lemma batting_row_cells:
  assumes "find_all (is_tag ''td'') tr = td0 # tds_rest"
  shows "batting_row (bat, ext, tot) tr =
     (if prefix ''extras'' (py_lower (cell_text td0))
      then Inr (bat, or_none (py_strip (py_join '' '' (map cell_text tds_rest))), tot)
      else if prefix ''total'' (py_lower (cell_text td0))
      then Inr (bat, ext, or_none (py_strip (py_join '' '' (map cell_text tds_rest))))
      else if row_name td0 \<noteq> [] \<and> list_ex (\<lambda>td. cell_text td \<noteq> []) (take 5 tds_rest) \<and>
              \<not> prefix ''did not bat'' (py_lower (cell_text td0))
      then Inr (bat @ [\<lparr>bat_name = row_name td0,
                        dismissal = or_none (text_of (find_first (is_tag ''small'') td0)),
                        runs = stat_text (td0 # tds_rest) 1, balls = stat_text (td0 # tds_rest) 2,
                        fours = stat_text (td0 # tds_rest) 3, sixes = stat_text (td0 # tds_rest) 4,
                        sr = stat_text (td0 # tds_rest) 5\<rparr>], ext, tot)
      else Inr (bat, ext, tot))"
proof -
  note any1 = any_stat[of td0 tds_rest, simplified]
  have nm: "(if text_of (find_first (is_tag ''b'') td0) \<noteq> [] then text_of (find_first (is_tag ''b'') td0)
      else cell_text td0) = row_name td0" by (simp add: row_name_def)
  show ?thesis
    unfolding batting_row_def assms
    by (simp add: Let_def stat_cell_ok py_index_def rest_text_def nm any1)
qed

lemma fold_e_all_ok:
  "(\<And>s x. \<exists>s1. f s x = Inr s1) \<Longrightarrow> \<exists>s1. fold_e f s xs = Inr s1"
proof (induction xs arbitrary: s)
  case Nil
  then show ?case by simp
next
  case (Cons x xs)
  from Cons.prems obtain s1 where "f s x = Inr s1" by blast
  moreover from Cons obtain s2 where "fold_e f s1 xs = Inr s2" by blast
  ultimately show ?case by simp
qed

lemma batting_row_total: "\<exists>s1. batting_row st tr = Inr s1"
proof (cases st)
  case (fields bat ext tot)
  show ?thesis
  proof (cases "find_all (is_tag ''td'') tr")
    case Nil
    then have "batting_row st tr = Inr st" by (rule batting_row_empty)
    then show ?thesis by blast
  next
    case (Cons td0 tds_rest)
    show ?thesis unfolding fields batting_row_cells[OF Cons] by simp
  qed
qed

lemma parse_batting_table_total: "\<exists>inn. parse_batting_table table = Inr inn"
proof -
  from fold_e_all_ok[of batting_row "([], None, None)" "table_rows table"] batting_row_total
  obtain s1 where "fold_e batting_row ([], None, None) (table_rows table) = Inr s1" by blast
  then show ?thesis by (cases s1) (simp add: parse_batting_table_def)
qed

lemma batting_row_set:
  assumes "batting_row (bat, ext, tot) tr = Inr (bat1, ext1, tot1)"
  shows "e \<in> set bat1 \<longleftrightarrow> e \<in> set bat \<or>
       (\<exists>td0 tds_rest. find_all (is_tag ''td'') tr = td0 # tds_rest \<and>
          \<not> prefix ''extras'' (py_lower (cell_text td0)) \<and>
          \<not> prefix ''total'' (py_lower (cell_text td0)) \<and>
          \<not> prefix ''did not bat'' (py_lower (cell_text td0)) \<and>
          row_name td0 \<noteq> [] \<and> list_ex (\<lambda>td. cell_text td \<noteq> []) (take 5 tds_rest) \<and>
          e = \<lparr>bat_name = row_name td0,
               dismissal = or_none (text_of (find_first (is_tag ''small'') td0)),
               runs = stat_text (td0 # tds_rest) 1, balls = stat_text (td0 # tds_rest) 2,
               fours = stat_text (td0 # tds_rest) 3, sixes = stat_text (td0 # tds_rest) 4,
               sr = stat_text (td0 # tds_rest) 5\<rparr>)"
proof (cases "find_all (is_tag ''td'') tr")
  case Nil
  from batting_row_empty[OF Nil, of "(bat, ext, tot)"] assms have "bat1 = bat" by simp
  then show ?thesis by (simp add: Nil)
next
  case (Cons c cs)
  define E where "E = prefix ''extras'' (py_lower (cell_text c))"
  define T where "T = prefix ''total'' (py_lower (cell_text c))"
  define D where "D = prefix ''did not bat'' (py_lower (cell_text c))"
  define N where "N = (row_name c \<noteq> [] \<and> list_ex (\<lambda>td. cell_text td \<noteq> []) (take 5 cs))"
  define X where "X = or_none (py_strip (py_join '' '' (map cell_text cs)))"
  define ent where "ent = \<lparr>bat_name = row_name c,
               dismissal = or_none (text_of (find_first (is_tag ''small'') c)),
               runs = stat_text (c # cs) 1, balls = stat_text (c # cs) 2,
               fours = stat_text (c # cs) 3, sixes = stat_text (c # cs) 4,
               sr = stat_text (c # cs) 5\<rparr>"
  have step: "batting_row (bat, ext, tot) tr =
      (if E then Inr (bat, X, tot) else if T then Inr (bat, ext, X)
       else if N \<and> \<not> D then Inr (bat @ [ent], ext, tot) else Inr (bat, ext, tot))"
    unfolding E_def T_def D_def N_def X_def ent_def batting_row_cells[OF Cons] by simp
  from assms have b1: "bat1 = (if \<not> E \<and> \<not> T \<and> \<not> D \<and> N then bat @ [ent] else bat)"
    unfolding step by (auto split: if_splits)
  have q: "(\<exists>td0 tds_rest. find_all (is_tag ''td'') tr = td0 # tds_rest \<and>
          \<not> prefix ''extras'' (py_lower (cell_text td0)) \<and>
          \<not> prefix ''total'' (py_lower (cell_text td0)) \<and>
          \<not> prefix ''did not bat'' (py_lower (cell_text td0)) \<and>
          row_name td0 \<noteq> [] \<and> list_ex (\<lambda>td. cell_text td \<noteq> []) (take 5 tds_rest) \<and>
          e = \<lparr>bat_name = row_name td0,
               dismissal = or_none (text_of (find_first (is_tag ''small'') td0)),
               runs = stat_text (td0 # tds_rest) 1, balls = stat_text (td0 # tds_rest) 2,
               fours = stat_text (td0 # tds_rest) 3, sixes = stat_text (td0 # tds_rest) 4,
               sr = stat_text (td0 # tds_rest) 5\<rparr>) \<longleftrightarrow> (\<not> E \<and> \<not> T \<and> \<not> D \<and> N \<and> e = ent)"
  proof
    assume "\<exists>td0 tds_rest. find_all (is_tag ''td'') tr = td0 # tds_rest \<and>
          \<not> prefix ''extras'' (py_lower (cell_text td0)) \<and>
          \<not> prefix ''total'' (py_lower (cell_text td0)) \<and>
          \<not> prefix ''did not bat'' (py_lower (cell_text td0)) \<and>
          row_name td0 \<noteq> [] \<and> list_ex (\<lambda>td. cell_text td \<noteq> []) (take 5 tds_rest) \<and>
          e = \<lparr>bat_name = row_name td0,
               dismissal = or_none (text_of (find_first (is_tag ''small'') td0)),
               runs = stat_text (td0 # tds_rest) 1, balls = stat_text (td0 # tds_rest) 2,
               fours = stat_text (td0 # tds_rest) 3, sixes = stat_text (td0 # tds_rest) 4,
               sr = stat_text (td0 # tds_rest) 5\<rparr>"
    then obtain td0 tds_rest where
      h: "find_all (is_tag ''td'') tr = td0 # tds_rest"
        "\<not> prefix ''extras'' (py_lower (cell_text td0))"
        "\<not> prefix ''total'' (py_lower (cell_text td0))"
        "\<not> prefix ''did not bat'' (py_lower (cell_text td0))"
        "row_name td0 \<noteq> []" "list_ex (\<lambda>td. cell_text td \<noteq> []) (take 5 tds_rest)"
        "e = \<lparr>bat_name = row_name td0,
               dismissal = or_none (text_of (find_first (is_tag ''small'') td0)),
               runs = stat_text (td0 # tds_rest) 1, balls = stat_text (td0 # tds_rest) 2,
               fours = stat_text (td0 # tds_rest) 3, sixes = stat_text (td0 # tds_rest) 4,
               sr = stat_text (td0 # tds_rest) 5\<rparr>"
      by blast
    from h(1) Cons have "td0 = c" "tds_rest = cs" by simp_all
    with h(2-7) show "\<not> E \<and> \<not> T \<and> \<not> D \<and> N \<and> e = ent"
      unfolding E_def T_def D_def N_def ent_def by (simp only: simp_thms)
  next
    assume a: "\<not> E \<and> \<not> T \<and> \<not> D \<and> N \<and> e = ent"
    then have "find_all (is_tag ''td'') tr = c # cs \<and>
          \<not> prefix ''extras'' (py_lower (cell_text c)) \<and>
          \<not> prefix ''total'' (py_lower (cell_text c)) \<and>
          \<not> prefix ''did not bat'' (py_lower (cell_text c)) \<and>
          row_name c \<noteq> [] \<and> list_ex (\<lambda>td. cell_text td \<noteq> []) (take 5 cs) \<and>
          e = \<lparr>bat_name = row_name c,
               dismissal = or_none (text_of (find_first (is_tag ''small'') c)),
               runs = stat_text (c # cs) 1, balls = stat_text (c # cs) 2,
               fours = stat_text (c # cs) 3, sixes = stat_text (c # cs) 4,
               sr = stat_text (c # cs) 5\<rparr>"
      unfolding E_def T_def D_def N_def ent_def using Cons by (simp only: simp_thms)
    then show "\<exists>td0 tds_rest. find_all (is_tag ''td'') tr = td0 # tds_rest \<and>
          \<not> prefix ''extras'' (py_lower (cell_text td0)) \<and>
          \<not> prefix ''total'' (py_lower (cell_text td0)) \<and>
          \<not> prefix ''did not bat'' (py_lower (cell_text td0)) \<and>
          row_name td0 \<noteq> [] \<and> list_ex (\<lambda>td. cell_text td \<noteq> []) (take 5 tds_rest) \<and>
          e = \<lparr>bat_name = row_name td0,
               dismissal = or_none (text_of (find_first (is_tag ''small'') td0)),
               runs = stat_text (td0 # tds_rest) 1, balls = stat_text (td0 # tds_rest) 2,
               fours = stat_text (td0 # tds_rest) 3, sixes = stat_text (td0 # tds_rest) 4,
               sr = stat_text (td0 # tds_rest) 5\<rparr>"
      by blast
  qed
  show ?thesis unfolding q b1 by auto
qed

lemma batting_fold_set:
  assumes "fold_e batting_row (bat, ext, tot) rows = Inr (bat1, ext1, tot1)"
  shows "e \<in> set bat1 \<longleftrightarrow> e \<in> set bat \<or> (\<exists>tr \<in> set rows.
       (\<exists>td0 tds_rest. find_all (is_tag ''td'') tr = td0 # tds_rest \<and>
          \<not> prefix ''extras'' (py_lower (cell_text td0)) \<and>
          \<not> prefix ''total'' (py_lower (cell_text td0)) \<and>
          \<not> prefix ''did not bat'' (py_lower (cell_text td0)) \<and>
          row_name td0 \<noteq> [] \<and> list_ex (\<lambda>td. cell_text td \<noteq> []) (take 5 tds_rest) \<and>
          e = \<lparr>bat_name = row_name td0,
               dismissal = or_none (text_of (find_first (is_tag ''small'') td0)),
               runs = stat_text (td0 # tds_rest) 1, balls = stat_text (td0 # tds_rest) 2,
               fours = stat_text (td0 # tds_rest) 3, sixes = stat_text (td0 # tds_rest) 4,
               sr = stat_text (td0 # tds_rest) 5\<rparr>))"
  using assms
proof (induction rows arbitrary: bat ext tot)
  case Nil
  then show ?case by simp
next
  case (Cons r rows)
  from batting_row_total[of "(bat, ext, tot)" r] obtain b2 e2 t2 where
    s: "batting_row (bat, ext, tot) r = Inr (b2, e2, t2)" by (metis surj_pair)
  with Cons.prems have f: "fold_e batting_row (b2, e2, t2) rows = Inr (bat1, ext1, tot1)"
    by simp
  note ih = Cons.IH[OF f]
  note st = batting_row_set[OF s, of e]
  show ?case unfolding ih st by (simp only: list.set bex_simps insert_iff) blast
qed

lemma parse_batting_table_players:
  "\<exists>inn. parse_batting_table table = Inr inn \<and>
     (\<forall>e. e \<in> set (batting inn) \<longleftrightarrow> (\<exists>tr \<in> set (table_rows table).
       (\<exists>td0 tds_rest. find_all (is_tag ''td'') tr = td0 # tds_rest \<and>
          \<not> prefix ''extras'' (py_lower (cell_text td0)) \<and>
          \<not> prefix ''total'' (py_lower (cell_text td0)) \<and>
          \<not> prefix ''did not bat'' (py_lower (cell_text td0)) \<and>
          row_name td0 \<noteq> [] \<and> list_ex (\<lambda>td. cell_text td \<noteq> []) (take 5 tds_rest) \<and>
          e = \<lparr>bat_name = row_name td0,
               dismissal = or_none (text_of (find_first (is_tag ''small'') td0)),
               runs = stat_text (td0 # tds_rest) 1, balls = stat_text (td0 # tds_rest) 2,
               fours = stat_text (td0 # tds_rest) 3, sixes = stat_text (td0 # tds_rest) 4,
               sr = stat_text (td0 # tds_rest) 5\<rparr>)))"
proof -
  from fold_e_all_ok[of batting_row "([], None, None)" "table_rows table"] batting_row_total
  obtain bat ext tot where
    f: "fold_e batting_row ([], None, None) (table_rows table) = Inr (bat, ext, tot)"
    by (metis surj_pair)
  let ?inn = "\<lparr>batting = bat, extras = ext, total = tot, info_note = None,
               bowling = None, team = None\<rparr>"
  have p: "parse_batting_table table = Inr ?inn" by (simp add: parse_batting_table_def f)
  have b: "batting ?inn = bat" by simp
  have "\<forall>e. e \<in> set (batting ?inn) \<longleftrightarrow> (\<exists>tr \<in> set (table_rows table).
       (\<exists>td0 tds_rest. find_all (is_tag ''td'') tr = td0 # tds_rest \<and>
          \<not> prefix ''extras'' (py_lower (cell_text td0)) \<and>
          \<not> prefix ''total'' (py_lower (cell_text td0)) \<and>
          \<not> prefix ''did not bat'' (py_lower (cell_text td0)) \<and>
          row_name td0 \<noteq> [] \<and> list_ex (\<lambda>td. cell_text td \<noteq> []) (take 5 tds_rest) \<and>
          e = \<lparr>bat_name = row_name td0,
               dismissal = or_none (text_of (find_first (is_tag ''small'') td0)),
               runs = stat_text (td0 # tds_rest) 1, balls = stat_text (td0 # tds_rest) 2,
               fours = stat_text (td0 # tds_rest) 3, sixes = stat_text (td0 # tds_rest) 4,
               sr = stat_text (td0 # tds_rest) 5\<rparr>))"
    unfolding b using batting_fold_set[OF f] by simp
  with p show ?thesis by blast
qed

text \<open>
  Claim C7, with the text that the code stores. The label of a row is the text of its
  first cell in lower case. A row whose label starts with \<open>extras\<close> sets the extras of
  the innings to the texts of the remaining cells joined by spaces and stripped, or to
  nothing when that is empty, and adds no player; a row whose label starts with
  \<open>total\<close> sets the total in the same way; a row whose label starts with
  \<open>did not bat\<close> changes nothing. Every other row adds a batting entry exactly when its
  name is not empty and one of the (up to five) cells after the first is not empty. A
  row without cells changes nothing, and no row raises. For a whole table: the parse
  returns an innings, and its players are exactly the entries of the rows (of the
  \<open>tbody\<close>, or of the table when there is none) whose label starts with none of the
  three words, whose name is not empty and which have a non-empty statistic.
\<close>

theorem batting_row_rules:
  "(find_all (is_tag ''td'') tr = [] \<longrightarrow> batting_row (bat, ext, tot) tr = Inr (bat, ext, tot)) \<and>
   (\<forall>td0 tds_rest. find_all (is_tag ''td'') tr = td0 # tds_rest \<longrightarrow>
      (prefix ''extras'' (py_lower (cell_text td0)) \<longrightarrow>
         batting_row (bat, ext, tot) tr =
           Inr (bat, or_none (py_strip (py_join '' '' (map cell_text tds_rest))), tot)) \<and>
      (prefix ''total'' (py_lower (cell_text td0)) \<longrightarrow>
         batting_row (bat, ext, tot) tr =
           Inr (bat, ext, or_none (py_strip (py_join '' '' (map cell_text tds_rest))))) \<and>
      (prefix ''did not bat'' (py_lower (cell_text td0)) \<longrightarrow>
         batting_row (bat, ext, tot) tr = Inr (bat, ext, tot)) \<and>
      (\<not> prefix ''extras'' (py_lower (cell_text td0)) \<and>
       \<not> prefix ''total'' (py_lower (cell_text td0)) \<and>
       \<not> prefix ''did not bat'' (py_lower (cell_text td0)) \<longrightarrow>
         batting_row (bat, ext, tot) tr =
           Inr (if row_name td0 \<noteq> [] \<and> list_ex (\<lambda>td. cell_text td \<noteq> []) (take 5 tds_rest)
                then bat @ [\<lparr>bat_name = row_name td0,
                        dismissal = or_none (text_of (find_first (is_tag ''small'') td0)),
                        runs = stat_text (td0 # tds_rest) 1, balls = stat_text (td0 # tds_rest) 2,
                        fours = stat_text (td0 # tds_rest) 3, sixes = stat_text (td0 # tds_rest) 4,
                        sr = stat_text (td0 # tds_rest) 5\<rparr>]
                else bat, ext, tot))) \<and>
   (\<exists>inn. parse_batting_table table = Inr inn \<and>
     (\<forall>e. e \<in> set (batting inn) \<longleftrightarrow> (\<exists>tr \<in> set (table_rows table).
       (\<exists>td0 tds_rest. find_all (is_tag ''td'') tr = td0 # tds_rest \<and>
          \<not> prefix ''extras'' (py_lower (cell_text td0)) \<and>
          \<not> prefix ''total'' (py_lower (cell_text td0)) \<and>
          \<not> prefix ''did not bat'' (py_lower (cell_text td0)) \<and>
          row_name td0 \<noteq> [] \<and> list_ex (\<lambda>td. cell_text td \<noteq> []) (take 5 tds_rest) \<and>
          e = \<lparr>bat_name = row_name td0,
               dismissal = or_none (text_of (find_first (is_tag ''small'') td0)),
               runs = stat_text (td0 # tds_rest) 1, balls = stat_text (td0 # tds_rest) 2,
               fours = stat_text (td0 # tds_rest) 3, sixes = stat_text (td0 # tds_rest) 4,
               sr = stat_text (td0 # tds_rest) 5\<rparr>))))"
proof -
  have 1: "find_all (is_tag ''td'') tr = [] \<longrightarrow> batting_row (bat, ext, tot) tr = Inr (bat, ext, tot)"
    using batting_row_empty by blast
  have 2: "\<forall>td0 tds_rest. find_all (is_tag ''td'') tr = td0 # tds_rest \<longrightarrow>
      (prefix ''extras'' (py_lower (cell_text td0)) \<longrightarrow>
         batting_row (bat, ext, tot) tr =
           Inr (bat, or_none (py_strip (py_join '' '' (map cell_text tds_rest))), tot)) \<and>
      (prefix ''total'' (py_lower (cell_text td0)) \<longrightarrow>
         batting_row (bat, ext, tot) tr =
           Inr (bat, ext, or_none (py_strip (py_join '' '' (map cell_text tds_rest))))) \<and>
      (prefix ''did not bat'' (py_lower (cell_text td0)) \<longrightarrow>
         batting_row (bat, ext, tot) tr = Inr (bat, ext, tot)) \<and>
      (\<not> prefix ''extras'' (py_lower (cell_text td0)) \<and>
       \<not> prefix ''total'' (py_lower (cell_text td0)) \<and>
       \<not> prefix ''did not bat'' (py_lower (cell_text td0)) \<longrightarrow>
         batting_row (bat, ext, tot) tr =
           Inr (if row_name td0 \<noteq> [] \<and> list_ex (\<lambda>td. cell_text td \<noteq> []) (take 5 tds_rest)
                then bat @ [\<lparr>bat_name = row_name td0,
                        dismissal = or_none (text_of (find_first (is_tag ''small'') td0)),
                        runs = stat_text (td0 # tds_rest) 1, balls = stat_text (td0 # tds_rest) 2,
                        fours = stat_text (td0 # tds_rest) 3, sixes = stat_text (td0 # tds_rest) 4,
                        sr = stat_text (td0 # tds_rest) 5\<rparr>]
                else bat, ext, tot))"
  proof (intro allI impI)
    fix td0 tds_rest assume a: "find_all (is_tag ''td'') tr = td0 # tds_rest"
    note c = batting_row_cells[OF a, of bat ext tot]
    note x = label_exclusive[of "py_lower (cell_text td0)"]
    show "(prefix ''extras'' (py_lower (cell_text td0)) \<longrightarrow>
         batting_row (bat, ext, tot) tr =
           Inr (bat, or_none (py_strip (py_join '' '' (map cell_text tds_rest))), tot)) \<and>
      (prefix ''total'' (py_lower (cell_text td0)) \<longrightarrow>
         batting_row (bat, ext, tot) tr =
           Inr (bat, ext, or_none (py_strip (py_join '' '' (map cell_text tds_rest))))) \<and>
      (prefix ''did not bat'' (py_lower (cell_text td0)) \<longrightarrow>
         batting_row (bat, ext, tot) tr = Inr (bat, ext, tot)) \<and>
      (\<not> prefix ''extras'' (py_lower (cell_text td0)) \<and>
       \<not> prefix ''total'' (py_lower (cell_text td0)) \<and>
       \<not> prefix ''did not bat'' (py_lower (cell_text td0)) \<longrightarrow>
         batting_row (bat, ext, tot) tr =
           Inr (if row_name td0 \<noteq> [] \<and> list_ex (\<lambda>td. cell_text td \<noteq> []) (take 5 tds_rest)
                then bat @ [\<lparr>bat_name = row_name td0,
                        dismissal = or_none (text_of (find_first (is_tag ''small'') td0)),
                        runs = stat_text (td0 # tds_rest) 1, balls = stat_text (td0 # tds_rest) 2,
                        fours = stat_text (td0 # tds_rest) 3, sixes = stat_text (td0 # tds_rest) 4,
                        sr = stat_text (td0 # tds_rest) 5\<rparr>]
                else bat, ext, tot))"
      unfolding c using x by (intro conjI impI) (simp_all only: if_True if_False, auto)
  qed
  note 3 = parse_batting_table_players[of table]
  show ?thesis by (intro conjI 1 2 3)
qed

text \<open>
  An extras row, a "did not bat" row and the row of a batsman with two statistics, and
  the table of the three rows.
\<close>

theorem batting_row_rules_witness:
  "batting_row ([], None, None) extras_row = Inr ([], Some ''5'', None) \<and>
   batting_row ([], None, None) did_not_bat_row = Inr ([], None, None) \<and>
   batting_row ([], None, None) batsman_row =
     Inr ([\<lparr>bat_name = ''Babar'', dismissal = Some ''b Starc'', runs = Some ''50'',
            balls = Some ''40'', fours = None, sixes = None, sr = None\<rparr>], None, None) \<and>
   parse_batting_table sample_batting_table =
     Inr \<lparr>batting = [\<lparr>bat_name = ''Babar'', dismissal = Some ''b Starc'', runs = Some ''50'',
            balls = Some ''40'', fours = None, sixes = None, sr = None\<rparr>],
          extras = Some ''5'', total = None, info_note = None, bowling = None, team = None\<rparr>"
proof -
  let ?e = "Elem ''td'' [] [] [Text ''Extras'']"
  let ?o = "Elem ''td'' [] [] []"
  let ?f = "Elem ''td'' [] [] [Text ''5'']"
  have c1: "find_all (is_tag ''td'') extras_row = ?e # [?o, ?f]" by code_simp
  have p1: "prefix ''extras'' (py_lower (cell_text ?e))" by code_simp
  have v1: "or_none (py_strip (py_join '' '' (map cell_text [?o, ?f]))) = Some ''5''" by code_simp
  note r1 = batting_row_rules[of extras_row "[]" None None, THEN conjunct2, THEN conjunct1, rule_format, OF c1,
      THEN conjunct1, rule_format, OF p1]
  have 1: "batting_row ([], None, None) extras_row = Inr ([], Some ''5'', None)"
    using r1 unfolding v1 .
  let ?d = "Elem ''td'' [] [] [Text ''Did not bat: Smith'']"
  let ?x = "Elem ''td'' [] [] [Text ''x'']"
  have c2: "find_all (is_tag ''td'') did_not_bat_row = ?d # [?x]" by code_simp
  have p2: "prefix ''did not bat'' (py_lower (cell_text ?d))" by code_simp
  note 2 = batting_row_rules[of did_not_bat_row "[]" None None, THEN conjunct2, THEN conjunct1, rule_format, OF c2,
      THEN conjunct2, THEN conjunct2, THEN conjunct1, rule_format, OF p2]
  let ?n = "Elem ''td'' [] [] [Elem ''b'' [] [] [Text ''Babar''], Elem ''small'' [] [] [Text ''b Starc'']]"
  let ?r = "Elem ''td'' [] [] [Text ''50'']"
  let ?b = "Elem ''td'' [] [] [Text ''40'']"
  have c3: "find_all (is_tag ''td'') batsman_row = ?n # [?r, ?b]" by code_simp
  have p3: "\<not> prefix ''extras'' (py_lower (cell_text ?n)) \<and>
       \<not> prefix ''total'' (py_lower (cell_text ?n)) \<and>
       \<not> prefix ''did not bat'' (py_lower (cell_text ?n))" by code_simp
  have v3: "(if row_name ?n \<noteq> [] \<and> list_ex (\<lambda>td. cell_text td \<noteq> []) (take 5 [?r, ?b])
                then [] @ [\<lparr>bat_name = row_name ?n,
                        dismissal = or_none (text_of (find_first (is_tag ''small'') ?n)),
                        runs = stat_text (?n # [?r, ?b]) 1, balls = stat_text (?n # [?r, ?b]) 2,
                        fours = stat_text (?n # [?r, ?b]) 3, sixes = stat_text (?n # [?r, ?b]) 4,
                        sr = stat_text (?n # [?r, ?b]) 5\<rparr>]
                else []) = [\<lparr>bat_name = ''Babar'', dismissal = Some ''b Starc'', runs = Some ''50'',
            balls = Some ''40'', fours = None, sixes = None, sr = None\<rparr>]" by code_simp
  note r3 = batting_row_rules[of batsman_row "[]" None None, THEN conjunct2, THEN conjunct1, rule_format, OF c3,
      THEN conjunct2, THEN conjunct2, THEN conjunct2, rule_format, OF p3]
  have 3: "batting_row ([], None, None) batsman_row =
     Inr ([\<lparr>bat_name = ''Babar'', dismissal = Some ''b Starc'', runs = Some ''50'',
            balls = Some ''40'', fours = None, sixes = None, sr = None\<rparr>], None, None)"
    using r3 unfolding v3 .
  have 4: "parse_batting_table sample_batting_table =
     Inr \<lparr>batting = [\<lparr>bat_name = ''Babar'', dismissal = Some ''b Starc'', runs = Some ''50'',
            balls = Some ''40'', fours = None, sixes = None, sr = None\<rparr>],
          extras = Some ''5'', total = None, info_note = None, bowling = None, team = None\<rparr>"
    by code_simp
  from 1 2 3 4 show ?thesis by (intro conjI)
qed

text \<open>
  The extras are not the joined text itself. With an empty cell before the number the
  joined text starts with a space and the field does not; with no further cell the
  joined text is empty and the field is absent, also when an earlier row had set it.
\<close>

theorem batting_row_rules_counterexample:
  "batting_row ([], None, None) extras_row = Inr ([], Some ''5'', None) \<and>
   py_join '' '' (map cell_text (tl (find_all (is_tag ''td'') extras_row))) = '' 5'' \<and>
   batting_row ([], Some ''1'', None) bare_extras_row = Inr ([], None, None) \<and>
   py_join '' '' (map cell_text (tl (find_all (is_tag ''td'') bare_extras_row))) = []"
proof -
  have 1: "batting_row ([], None, None) extras_row = Inr ([], Some ''5'', None)" by code_simp
  have 2: "py_join '' '' (map cell_text (tl (find_all (is_tag ''td'') extras_row))) = '' 5''"
    by code_simp
  have 3: "batting_row ([], Some ''1'', None) bare_extras_row = Inr ([], None, None)" by code_simp
  have 4: "py_join '' '' (map cell_text (tl (find_all (is_tag ''td'') bare_extras_row))) = []"
    by code_simp
  from 1 2 3 4 show ?thesis by (intro conjI)
qed


section \<open>The flag resolver is idempotent\<close>


















section \<open>The scorecard extractor does not raise\<close>

lemma sequence_e_all_ok:
  "(\<And>x. x \<in> set xs \<Longrightarrow> \<exists>v. x = Inr v) \<Longrightarrow> \<exists>vs. sequence_e xs = Inr vs \<and> length vs = length xs"
proof (induction xs)
  case Nil
  then show ?case by simp
next
  case (Cons x xs)
  from Cons.prems obtain v where v: "x = Inr v" by auto
  from Cons have "\<exists>vs. sequence_e xs = Inr vs \<and> length vs = length xs" by auto
  then obtain vs where "sequence_e xs = Inr vs" "length vs = length xs" by blast
  with v show ?case by simp
qed

lemma bowling_row_total: "\<exists>s1. bowling_row bowlers tr = Inr s1"
proof (cases "length (find_all (is_tag ''td'') tr) < 6")
  case True
  then show ?thesis by (simp add: bowling_row_def)
next
  case False
  let ?tds = "find_all (is_tag ''td'') tr"
  have "\<And>x. x \<in> set (map (py_index ?tds) [0, 1, 2, 3, 4, 5]) \<Longrightarrow> \<exists>v. x = Inr v"
    using False by (auto simp: py_index_def)
  from sequence_e_all_ok[OF this]
  obtain cells where "sequence_e (map (py_index ?tds) [0, 1, 2, 3, 4, 5]) = Inr cells" by blast
  then show ?thesis using False by (auto simp: bowling_row_def Let_def)
qed

lemma parse_bowling_table_total: "\<exists>bs. parse_bowling_table table = Inr bs"
  unfolding parse_bowling_table_def using fold_e_all_ok[of bowling_row] bowling_row_total by blast

lemma innings_of_total: "\<exists>inn. innings_of bowling_tables tms idx bt = Inr inn"
proof -
  obtain inn where b: "parse_batting_table bt = Inr inn"
    using parse_batting_table_total by blast
  have "\<exists>inn1. (if idx < length bowling_tables
                 then (case py_index bowling_tables idx of
                         Inl e \<Rightarrow> Inl e
                       | Inr bowl \<Rightarrow>
                           (case parse_bowling_table bowl of
                              Inl e \<Rightarrow> Inl e
                            | Inr bs \<Rightarrow> Inr (inn\<lparr>bowling := Some bs\<rparr>)))
                 else Inr inn) = Inr inn1"
  proof (cases "idx < length bowling_tables")
    case True
    obtain bs where "parse_bowling_table (bowling_tables ! idx) = Inr bs"
      using parse_bowling_table_total by blast
    with True show ?thesis by (simp add: py_index_def)
  next
    case False
    then show ?thesis by simp
  qed
  then obtain inn1 where i: "(if idx < length bowling_tables
                 then (case py_index bowling_tables idx of
                         Inl e \<Rightarrow> Inl e
                       | Inr bowl \<Rightarrow>
                           (case parse_bowling_table bowl of
                              Inl e \<Rightarrow> Inl e
                            | Inr bs \<Rightarrow> Inr (inn\<lparr>bowling := Some bs\<rparr>)))
                 else Inr inn) = Inr inn1" by blast
  show ?thesis
  proof (cases "tms = []")
    case True
    with b i show ?thesis by (simp add: innings_of_def)
  next
    case False
    then have "idx mod length tms < length tms" by simp
    with False b i show ?thesis by (simp add: innings_of_def py_index_def)
  qed
qed

lemma split_first_length:
  "sublist sep s \<Longrightarrow> sep \<noteq> [] \<Longrightarrow> length (split_first sep acc s) = 2"
proof (induction s arbitrary: acc)
  case Nil
  then show ?case by simp
next
  case (Cons c cs)
  show ?case
  proof (cases "prefix sep (c # cs)")
    case True
    then show ?thesis by simp
  next
    case False
    with Cons.prems have "sublist sep cs" by (simp add: sublist_Cons_right)
    with Cons False show ?thesis by simp
  qed
qed

lemma split_first_nonempty: "split_first sep acc s \<noteq> []"
  by (induction s arbitrary: acc) simp_all

lemma extract_title_and_teams_total: "\<exists>x. extract_title_and_teams doc = Inr x"
proof -
  define ttl where "ttl = or_none (text_of (find_first (is_tag ''title'') doc))"
  show ?thesis
  proof (cases "truthy ttl \<and> sublist '' VS '' (the ttl)")
    case False
    then show ?thesis by (auto simp: extract_title_and_teams_def ttl_def[symmetric])
  next
    case True
    then have l: "length (py_split1 '' VS '' (the ttl)) = 2"
      unfolding py_split1_def by (intro split_first_length) simp_all
    then have 0: "py_index (py_split1 '' VS '' (the ttl)) 0 = Inr (py_split1 '' VS '' (the ttl) ! 0)"
      and 1: "py_index (py_split1 '' VS '' (the ttl)) 1 = Inr (py_split1 '' VS '' (the ttl) ! 1)"
      by (simp_all add: py_index_def)
    have "py_split1 '','' (py_split1 '' VS '' (the ttl) ! 1) \<noteq> []"
      unfolding py_split1_def by (rule split_first_nonempty)
    then have 2: "py_index (py_split1 '','' (py_split1 '' VS '' (the ttl) ! 1)) 0
        = Inr (py_split1 '','' (py_split1 '' VS '' (the ttl) ! 1) ! 0)"
      by (simp add: py_index_def)
    from True show ?thesis
      unfolding extract_title_and_teams_def ttl_def[symmetric] Let_def
      by (simp only: 0 1 2 if_True sum.case) (simp split: if_splits)
  qed
qed

text \<open>A tag selected below an element of class \<open>section_title\<close> has a parent.\<close>

lemma section_title_item_parent: "is_section_title_item t \<Longrightarrow> find_parent t \<noteq> None"
proof (cases t)
  case (Tag n nx p)
  assume "is_section_title_item t"
  with Tag have "ancestors (Tag n nx p) \<noteq> []" by (auto simp: is_section_title_item_def)
  then have "p \<noteq> None" by (cases p) auto
  with Tag show ?thesis by simp
qed

lemma find_in_set: "List.find P xs = Some x \<Longrightarrow> x \<in> set xs"
  by (induction xs) (auto split: if_splits)

lemma parse_match_info_total: "\<exists>d. parse_match_info soup = Inr d"
proof (cases "List.find (\<lambda>d. sublist ''match information'' (py_lower (text_of (Some (tnode d)))))
                   (filter is_section_title_item (tag_descendants soup))")
  case None
  then show ?thesis by (simp add: parse_match_info_def split: option.splits)
next
  case (Some title_div)
  then have "title_div \<in> set (filter is_section_title_item (tag_descendants soup))"
    by (rule find_in_set)
  then have "find_parent title_div \<noteq> None" using section_title_item_parent by simp
  then obtain par where "find_parent title_div = Some par" by blast
  with Some show ?thesis by (simp add: parse_match_info_def split: option.splits)
qed

text \<open>
  Claim C9. For every parsed document \<open>parse_scorecard_html\<close> returns a result (no
  index is out of range and no method is called on \<open>None\<close>); the result has
  \<open>ok = True\<close>, the numbers of batting and bowling tables found, and one innings for
  every batting table.
\<close>

theorem parse_scorecard_html_total:
  "\<exists>r. parse_scorecard_html doc = Inr r \<and> ok r \<and>
     batting_count r = length (fst (classify_tables [] [] (find_all (is_tag ''table'') doc))) \<and>
     bowling_count r = length (snd (classify_tables [] [] (find_all (is_tag ''table'') doc))) \<and>
     length (innings_list r) = batting_count r"
proof -
  obtain ttl tms where t: "extract_title_and_teams doc = Inr (ttl, tms)"
    using extract_title_and_teams_total by (metis surj_pair)
  obtain bats bowls where c: "classify_tables [] [] (find_all (is_tag ''table'') doc) = (bats, bowls)"
    by (cases "classify_tables [] [] (find_all (is_tag ''table'') doc)")
  let ?xs = "map (\<lambda>(idx, bt). innings_of bowls tms idx bt) (enumerate 0 bats)"
  have "\<And>x. x \<in> set ?xs \<Longrightarrow> \<exists>v. x = Inr v"
    using innings_of_total by auto
  then have "\<exists>vs. sequence_e ?xs = Inr vs \<and> length vs = length ?xs"
    by (rule sequence_e_all_ok)
  then obtain inns where i: "sequence_e ?xs = Inr inns" and l0: "length inns = length ?xs"
    by blast
  from l0 have l: "length inns = length bats" by simp
  obtain d where m: "parse_match_info (soup_tag doc) = Inr d"
    using parse_match_info_total by blast
  have "parse_scorecard_html doc =
      Inr \<lparr>ok = True, sc_title = ttl, sc_teams = tms, info = d, innings_list = inns,
           batting_count = length bats, bowling_count = length bowls\<rparr>"
    by (simp add: parse_scorecard_html_def t c i m)
  with l c show ?thesis by simp
qed

text \<open>
  The sample scorecard: one batting table, no bowling table, two teams. A document
  without any element gives a result with nothing in it.
\<close>

theorem parse_scorecard_html_total_witness:
  "parse_scorecard_html sample_scorecard =
     Inr \<lparr>ok = True, sc_title = Some ''A VS B, T20'', sc_teams = [''A'', ''B''],
          info = [(''Toss'', ''A'')],
          innings_list =
            [\<lparr>batting = [\<lparr>bat_name = ''Babar'', dismissal = None, runs = Some ''50'',
                          balls = None, fours = None, sixes = None, sr = None\<rparr>],
              extras = Some ''5'', total = None, info_note = None, bowling = None,
              team = Some ''A''\<rparr>],
          batting_count = 1, bowling_count = 0\<rparr> \<and>
   length (fst (classify_tables [] [] (find_all (is_tag ''table'') sample_scorecard))) = 1 \<and>
   length (snd (classify_tables [] [] (find_all (is_tag ''table'') sample_scorecard))) = 0 \<and>
   parse_scorecard_html empty_document =
     Inr \<lparr>ok = True, sc_title = None, sc_teams = [], info = [], innings_list = [],
          batting_count = 0, bowling_count = 0\<rparr>"
proof -
  let ?r = "\<lparr>ok = True, sc_title = Some ''A VS B, T20'', sc_teams = [''A'', ''B''],
          info = [(''Toss'', ''A'')],
          innings_list =
            [\<lparr>batting = [\<lparr>bat_name = ''Babar'', dismissal = None, runs = Some ''50'',
                          balls = None, fours = None, sixes = None, sr = None\<rparr>],
              extras = Some ''5'', total = None, info_note = None, bowling = None,
              team = Some ''A''\<rparr>],
          batting_count = 1, bowling_count = 0\<rparr>"
  have e: "parse_scorecard_html sample_scorecard = Inr ?r" by code_simp
  from parse_scorecard_html_total[of sample_scorecard] obtain r where
    r: "parse_scorecard_html sample_scorecard = Inr r"
    and b: "batting_count r = length (fst (classify_tables [] [] (find_all (is_tag ''table'') sample_scorecard)))"
    and c: "bowling_count r = length (snd (classify_tables [] [] (find_all (is_tag ''table'') sample_scorecard)))"
    by blast
  from r e have "r = ?r" by simp
  with b c have "length (fst (classify_tables [] [] (find_all (is_tag ''table'') sample_scorecard))) = 1"
    and "length (snd (classify_tables [] [] (find_all (is_tag ''table'') sample_scorecard))) = 0"
    by simp_all
  moreover have "parse_scorecard_html empty_document =
     Inr \<lparr>ok = True, sc_title = None, sc_teams = [], info = [], innings_list = [],
          batting_count = 0, bowling_count = 0\<rparr>"
    by code_simp
  ultimately show ?thesis using e by (intro conjI)
qed


end
